theory Spec2Isabelle
  imports Main "HOL-Library.AList" "HOL-Library.Char_ord" "HOL-Library.List_Lexorder"
    "HOL-Library.Option_ord"
begin

section \<open>The voucher server (src/server.js): data model\<close>

text \<open>
  The server keeps three stores in step: the Voucher collection of the record store, one
  spreadsheet per (owner, company) and one Drive folder of generated PDF files. The
  handlers are embedded as functions from the state of all three (a \<open>world\<close>) to a
  response and the new state. An exception of the source is the \<open>Inl\<close> branch of the
  response; the world returned with it holds the effects of the steps that ran before
  the failure, as nothing is rolled back.

  JavaScript values that reach a spreadsheet cell or the PDF are \<open>jsval\<close>: \<open>undefined\<close>,
  a number or a string. Numbers are voucher numbers. A JavaScript number is a double;
  the numbers of the model are the doubles whose value is an integer, each written as
  that integer, and an addition of two of them rounds its result to a double
  (\<open>js_add\<close> below). Fractional numbers, \<open>NaN\<close> and the infinities are left out.
\<close>

datatype jsval = JUndef | JNum int | JStr string

datatype error =
    InvalidCategory          \<comment> \<open>400 "Invalid filter option"\<close>
  | Unauthenticated          \<comment> \<open>authenticateGoogle throws\<close>
  | VoucherNotFound          \<comment> \<open>404 "Voucher not found"\<close>
  | RowNotFound              \<comment> \<open>"Voucher not found in sheet"\<close>
  | ProvisioningFailed       \<comment> \<open>createSpreadsheet or createDriveFolder throws\<close>
  | UpstreamWriteFailure     \<comment> \<open>a Drive, Sheets or record-store call throws\<close>
  | VoucherNumberRequired    \<comment> \<open>"Voucher number is required"\<close>
  | CastError                \<comment> \<open>\<open>findOne\<close> throws: the \<open>_id\<close> of the query is no ObjectId\<close>

record user =
  email :: string
  name :: string
  picture :: string

text \<open>
  The fields a form carries and \<open>Voucher.updateOne\<close> rewrites (lines 406-415). Each is a
  string or absent.
\<close>

record fields =
  date :: "string option"
  payTo :: "string option"
  accountHead :: "string option"
  account :: "string option"
  transactionType :: "string option"
  amount :: "string option"
  amountRs :: "string option"
  checkedBy :: "string option"
  approvedBy :: "string option"
  receiverSignature :: "string option"

text \<open>
  \<open>req.body\<close>: the form fields, the category (\<open>filter\<close>) and the voucher number, when the
  body has one; the number is a double of integer value, as the parser of a JSON body
  yields it.
\<close>

record voucherData = fields +
  filter_opt :: "string option"
  body_voucherNo :: "int option"

text \<open>\<open>voucherSchema\<close> (lines 74-96), with the \<open>_id\<close> the record store gives a document.\<close>

record voucher = fields +
  oid :: nat
  email :: string
  company :: string
  voucherNo :: int
  pdfLink :: "string option"
  spreadsheetId :: "string option"
  folderId :: "string option"
  pdfFileId :: "string option"

text \<open>
  The external collaborators (section 6 of the specification), which are not code of the
  repository, are modelled by their contracts. A spreadsheet has one sheet, named at
  creation, and rows of cells, the header row first. A Drive file has a name (the
  category and the number of the template \<open>${filterOption}_${voucherNo}.pdf\<close>), a parent
  folder and the text items of the rendered PDF. Ids are opaque strings which a
  provider issues from a counter and never reuses. A call to Drive or Sheets that
  carries no credential is refused.

  The world holds the Voucher collection in its natural order (\<open>vouchers\<close>, with the
  counter of the \<open>_id\<close>s), the spreadsheets, folders and files of the providers by id
  (with the counter of their ids), the users of the sessions by session id, and the
  users the identity provider knows by token.
\<close>

record spreadsheet =
  title :: string
  rows :: "jsval list list"

record drive_file =
  file_name :: "string \<times> int"
  parent :: "string option"
  content :: "(string \<times> jsval) list"

record world =
  vouchers :: "voucher list"
  next_oid :: nat
  spreadsheets :: "(string \<times> spreadsheet) list"
  folders :: "(string \<times> string) list"
  files :: "(string \<times> drive_file) list"
  next_id :: nat
  sessions :: "(string \<times> user) list"
  userinfo :: "(string \<times> user) list"

text \<open>
  The \<open>:id\<close> of a request path, as the record store reads it when it casts the \<open>_id\<close> of
  a query: the text of an ObjectId, which is identified with the \<open>_id\<close> it denotes, or a
  text that denotes none (such as \<open>7\<close> or \<open>abc\<close>), for which the cast throws.
\<close>

datatype record_id = ObjectId nat | NotObjectId string

text \<open>
  A request: the session it belongs to, the token of its \<open>Authorization: Bearer\<close> header
  if it has one, and its body.
\<close>

record request =
  session_id :: string
  bearer :: "string option"
  body :: voucherData

datatype response =
    Submitted string "string"      \<comment> \<open>sheetURL, pdfFileId\<close>
  | Updated string "string"        \<comment> \<open>sheetURL, pdfFileId\<close>
  | Deleted
  | NextVoucherNo int
  | Vouchers "voucher list"

definition headerValues :: "string list" where
  "headerValues =
    [''Voucher No.'', ''Date'', ''Filter'', ''Pay to'', ''Account Head'', ''Towards'',
     ''Transaction Type'', ''The Sum'', ''Amount Rs.'', ''Checked By'', ''Approved By'',
     ''Receiver Signature'', ''PDF Link'']"

definition companies :: "string list" where
  "companies = [''Contentstack'', ''Surfboard'', ''RawEngineering'']"

section \<open>Numbers\<close>

text \<open>
  A number of the model is a double whose value is an integer. An integer of magnitude
  up to \<open>2^53\<close> is a double; a greater one has more than 53 binary digits, and the double
  nearest to it keeps the leading 53, rounded on the digits that follow them, to the
  even significand when two doubles are equally near. The sum of two numbers is the
  double nearest to the sum of their values. (The overflow of a sum to \<open>Infinity\<close>,
  beyond \<open>2^1024\<close>, is left out.)
\<close>

function bit_length :: "int \<Rightarrow> nat" where
  "bit_length k = (if 0 < k then bit_length (k div 2) + 1 else 0)"
  by pat_completeness auto
termination
  by (relation "measure nat") auto

declare bit_length.simps [simp del]

definition to_double :: "int \<Rightarrow> int" where
  "to_double k =
    (if \<bar>k\<bar> \<le> 2 ^ 53 then k
     else
       (let q = 2 ^ (bit_length \<bar>k\<bar> - 53);
            m = \<bar>k\<bar> div q;
            r = \<bar>k\<bar> mod q;
            m' = (if 2 * r < q then m
                  else if q < 2 * r then m + 1
                  else if even m then m else m + 1)
        in sgn k * (m' * q)))"

definition js_add :: "int \<Rightarrow> int \<Rightarrow> int" where
  "js_add a b = to_double (a + b)"

text \<open>
  The double nearest to the ratio \<open>a / b\<close> of a natural number and a positive one, when
  its value is an integer; \<open>None\<close> when it is not, or when the ratio rounds to
  \<open>Infinity\<close>. A ratio of at most \<open>2^-1075\<close> rounds to 0, and a greater one below one
  half to a double that is no integer. From one half on the double has 53 binary digits,
  the first of them of weight \<open>2^k\<close>.
\<close>

definition round_half_even :: "int \<Rightarrow> int \<Rightarrow> int" where
  "round_half_even a b =
    (let q = a div b; r = a mod b
     in if 2 * r < b then q else if b < 2 * r then q + 1 else if even q then q else q + 1)"

definition double_of_ratio :: "int \<Rightarrow> int \<Rightarrow> int option" where
  "double_of_ratio a b =
    (if a * 2 ^ 1075 \<le> b then Some 0
     else if 2 * a < b then None
     else
       (let k = int (bit_length (a div b)) - 1
        in if 52 \<le> k
           then (let q = 2 ^ nat (k - 52); d = round_half_even a (b * q) * q
                 in if 2 ^ 1024 \<le> d then None else Some d)
           else (let q = 2 ^ nat (52 - k); m = round_half_even (a * q) b
                 in if m mod q = 0 then Some (m div q) else None)))"

section \<open>Identity\<close>

text \<open>
  \<open>authenticateGoogle\<close> (lines 100-118): the user of the session when it has one (no
  credential is returned then), else the user the identity provider names for the bearer
  token, who is stored in the session.
\<close>

definition authenticateGoogle ::
  "request \<Rightarrow> world \<Rightarrow> (error + user \<times> string option) \<times> world" where
  "authenticateGoogle req w =
    (case map_of (sessions w) (session_id req) of
       Some u \<Rightarrow> (Inr (u, None), w)
     | None \<Rightarrow>
        (case bearer req of
           None \<Rightarrow> (Inl Unauthenticated, w)
         | Some token \<Rightarrow>
            (case map_of (userinfo w) token of
               None \<Rightarrow> (Inl Unauthenticated, w)
             | Some u \<Rightarrow>
                (Inr (u, Some token),
                 w\<lparr>sessions := AList.update (session_id req) u (sessions w)\<rparr>))))"

section \<open>Provisioning and numbering\<close>

definition fresh_id :: "nat \<Rightarrow> string" where
  "fresh_id n = CHR ''g'' # replicate n (CHR ''0'')"

text \<open>
  \<open>createSpreadsheet\<close> (lines 120-153): a spreadsheet with one sheet named after the
  company, whose first row is the header. A call without a credential is refused by the
  provider.
\<close>

definition createSpreadsheet ::
  "string \<Rightarrow> string option \<Rightarrow> world \<Rightarrow> (error + string) \<times> world" where
  "createSpreadsheet companyName auth w =
    (case auth of
       None \<Rightarrow> (Inl ProvisioningFailed, w)
     | Some _ \<Rightarrow>
        (let sid = fresh_id (next_id w) in
         (Inr sid,
          w\<lparr>spreadsheets := AList.update sid
                \<lparr>title = companyName, rows = [map JStr headerValues]\<rparr> (spreadsheets w),
            next_id := Suc (next_id w)\<rparr>)))"

text \<open>\<open>createDriveFolder\<close> (lines 155-173).\<close>

definition createDriveFolder ::
  "string \<Rightarrow> string option \<Rightarrow> world \<Rightarrow> (error + string) \<times> world" where
  "createDriveFolder companyName auth w =
    (case auth of
       None \<Rightarrow> (Inl ProvisioningFailed, w)
     | Some _ \<Rightarrow>
        (let fid = fresh_id (next_id w) in
         (Inr fid,
          w\<lparr>folders := AList.update fid (companyName @ '' Vouchers'') (folders w),
            next_id := Suc (next_id w)\<rparr>)))"

text \<open>
  \<open>Voucher.findOne(q)\<close> is the first document that satisfies the query;
  \<open>.sort({ voucherNo: -1 })\<close> makes it the first one among those of greatest number.
\<close>

definition findOne :: "(voucher \<Rightarrow> bool) \<Rightarrow> voucher list \<Rightarrow> voucher option" where
  "findOne q vs = find q vs"

primrec highest :: "voucher list \<Rightarrow> voucher option" where
  "highest [] = None"
| "highest (v # vs) =
    (case highest vs of
       None \<Rightarrow> Some v
     | Some h \<Rightarrow> if voucherNo v < voucherNo h then Some h else Some v)"

definition of_pair :: "string \<Rightarrow> string \<Rightarrow> voucher \<Rightarrow> bool" where
  "of_pair e c v = (voucher.email v = e \<and> company v = c)"

definition findHighest :: "string \<Rightarrow> string \<Rightarrow> voucher list \<Rightarrow> voucher option" where
  "findHighest e c vs = highest (filter (of_pair e c) vs)"

text \<open>
  \<open>getUserResources\<close> (lines 175-194) returns \<open>{ spreadsheetId, folderId, voucherNumber }\<close>,
  here a triple. The number is \<open>highestVoucher.voucherNo + 1\<close> (line 190), an addition of
  doubles.
\<close>

definition voucherNumber_of :: "string \<Rightarrow> string \<Rightarrow> world \<Rightarrow> int" where
  "voucherNumber_of e c w =
    (case findHighest e c (vouchers w) of
       None \<Rightarrow> 1
     | Some highestVoucher \<Rightarrow> js_add (voucherNo highestVoucher) 1)"

definition getUserResources ::
  "string \<Rightarrow> string \<Rightarrow> string option \<Rightarrow> world \<Rightarrow>
     (error + string option \<times> string option \<times> int) \<times> world" where
  "getUserResources e companyName auth w =
    (case findOne (of_pair e companyName) (vouchers w) of
       Some existingVoucher \<Rightarrow>
        (Inr (spreadsheetId existingVoucher, folderId existingVoucher,
              voucherNumber_of e companyName w), w)
     | None \<Rightarrow>
        (case createSpreadsheet companyName auth w of
           (Inl err, w1) \<Rightarrow> (Inl err, w1)
         | (Inr sid, w1) \<Rightarrow>
            (case createDriveFolder companyName auth w1 of
               (Inl err, w2) \<Rightarrow> (Inl err, w2)
             | (Inr fid, w2) \<Rightarrow>
                (Inr (Some sid, Some fid, voucherNumber_of e companyName w2), w2))))"

text \<open>The numbers of the vouchers an owner holds for a company, in the store's order.\<close>

definition numbers :: "string \<Rightarrow> string \<Rightarrow> world \<Rightarrow> int list" where
  "numbers e c w = map voucherNo (filter (of_pair e c) (vouchers w))"

section \<open>The rendered document\<close>

definition opt_val :: "string option \<Rightarrow> jsval" where
  "opt_val x = (case x of None \<Rightarrow> JUndef | Some s \<Rightarrow> JStr s)"

text \<open>\<open>value || ""\<close> for a field that is a string or absent.\<close>

definition or_empty :: "string option \<Rightarrow> jsval" where
  "or_empty x = (case x of None \<Rightarrow> JStr [] | Some s \<Rightarrow> JStr s)"

text \<open>
  The text items the handlers draw into the PDF, each a label and the value drawn beside
  it, in drawing order (lines 511-561 for submit, 288-338 for edit: the same items).
  Coordinates, fonts, rules and the logo are left out.
\<close>

definition render :: "voucherData \<Rightarrow> int \<Rightarrow> (string \<times> jsval) list" where
  "render voucherData num =
    [(''Date:'', opt_val (date voucherData)),
     (''Voucher No:'', JNum num),
     (''Pay to:'', or_empty (payTo voucherData)),
     (''Account Head:'', or_empty (accountHead voucherData)),
     (''Towards:'', or_empty (account voucherData)),
     (''Transaction Type:'', or_empty (transactionType voucherData)),
     (''Amount Rs.'', or_empty (amount voucherData)),
     (''The Sum.'', or_empty (amountRs voucherData)),
     (''Checked By'', or_empty (checkedBy voucherData)),
     (''Approved By'', or_empty (approvedBy voucherData)),
     (''Receiver Signature'', or_empty (receiverSignature voucherData))]"

section \<open>Drive and Sheets calls\<close>

definition webViewLink :: "string \<Rightarrow> string" where
  "webViewLink fileId = ''https://drive.google.com/file/d/'' @ fileId @ ''/view''"

text \<open>
  \<open>drive.files.create\<close> with a parent folder: refused without a credential or when the
  parent is not a folder of the store; else the file gets a fresh id and a link.
\<close>

definition drive_files_create ::
  "string \<times> int \<Rightarrow> string option \<Rightarrow> (string \<times> jsval) list \<Rightarrow> string option \<Rightarrow> world
     \<Rightarrow> (error + string \<times> string) \<times> world" where
  "drive_files_create nm parentId pdf auth w =
    (case auth of
       None \<Rightarrow> (Inl UpstreamWriteFailure, w)
     | Some _ \<Rightarrow>
        (case parentId of
           None \<Rightarrow> (Inl UpstreamWriteFailure, w)
         | Some p \<Rightarrow>
            (case map_of (folders w) p of
               None \<Rightarrow> (Inl UpstreamWriteFailure, w)
             | Some _ \<Rightarrow>
                (let fileId = fresh_id (next_id w) in
                 (Inr (fileId, webViewLink fileId),
                  w\<lparr>files := AList.update fileId
                        \<lparr>file_name = nm, parent = parentId, content = pdf\<rparr> (files w),
                    next_id := Suc (next_id w)\<rparr>)))))"

text \<open>\<open>drive.files.delete\<close>: refused without a credential or for an id that names no file.\<close>

definition drive_files_delete ::
  "string \<Rightarrow> string option \<Rightarrow> world \<Rightarrow> (error + unit) \<times> world" where
  "drive_files_delete fileId auth w =
    (case auth of
       None \<Rightarrow> (Inl UpstreamWriteFailure, w)
     | Some _ \<Rightarrow>
        (case map_of (files w) fileId of
           None \<Rightarrow> (Inl UpstreamWriteFailure, w)
         | Some _ \<Rightarrow> (Inr (), w\<lparr>files := AList.delete fileId (files w)\<rparr>)))"

text \<open>
  The sheet a range \<open>${sheetTitle}!...\<close> of a spreadsheet addresses, for a call with the
  given credential: none when the call has no credential, the spreadsheet does not exist
  or it has no sheet of that title.
\<close>

definition sheet_of ::
  "string option \<Rightarrow> string \<Rightarrow> string option \<Rightarrow> world \<Rightarrow> (string \<times> spreadsheet) option" where
  "sheet_of sid sheetTitle auth w =
    (case auth of
       None \<Rightarrow> None
     | Some _ \<Rightarrow>
        (case sid of
           None \<Rightarrow> None
         | Some i \<Rightarrow>
            (case map_of (spreadsheets w) i of
               None \<Rightarrow> None
             | Some sh \<Rightarrow> if title sh = sheetTitle then Some (i, sh) else None)))"

text \<open>\<open>values.get\<close> on \<open>${sheetTitle}!A2:O\<close>: the rows below the header.\<close>

definition values_get ::
  "string option \<Rightarrow> string \<Rightarrow> string option \<Rightarrow> world \<Rightarrow> error + jsval list list" where
  "values_get sid sheetTitle auth w =
    (case sheet_of sid sheetTitle auth w of
       None \<Rightarrow> Inl UpstreamWriteFailure
     | Some (i, sh) \<Rightarrow> Inr (tl (rows sh)))"

text \<open>\<open>values.append\<close> on \<open>${sheetTitle}!A:O\<close>: one row more, after the last.\<close>

definition values_append ::
  "string option \<Rightarrow> string \<Rightarrow> jsval list \<Rightarrow> string option \<Rightarrow> world \<Rightarrow> (error + unit) \<times> world" where
  "values_append sid sheetTitle vals auth w =
    (case sheet_of sid sheetTitle auth w of
       None \<Rightarrow> (Inl UpstreamWriteFailure, w)
     | Some (i, sh) \<Rightarrow>
        (Inr (), w\<lparr>spreadsheets :=
           AList.update i (sh\<lparr>rows := rows sh @ [vals]\<rparr>) (spreadsheets w)\<rparr>))"

text \<open>
  \<open>values.update\<close> and \<open>values.clear\<close> on \<open>${sheetTitle}!A${n}:O${n}\<close>, where \<open>n\<close> counts
  the rows of the sheet from 1.
\<close>

definition values_update ::
  "string option \<Rightarrow> string \<Rightarrow> nat \<Rightarrow> jsval list \<Rightarrow> string option \<Rightarrow> world
     \<Rightarrow> (error + unit) \<times> world" where
  "values_update sid sheetTitle n vals auth w =
    (case sheet_of sid sheetTitle auth w of
       None \<Rightarrow> (Inl UpstreamWriteFailure, w)
     | Some (i, sh) \<Rightarrow>
        (Inr (), w\<lparr>spreadsheets :=
           AList.update i (sh\<lparr>rows := (rows sh)[n - 1 := vals]\<rparr>) (spreadsheets w)\<rparr>))"

definition values_clear ::
  "string option \<Rightarrow> string \<Rightarrow> nat \<Rightarrow> string option \<Rightarrow> world \<Rightarrow> (error + unit) \<times> world" where
  "values_clear sid sheetTitle n auth w =
    (case sheet_of sid sheetTitle auth w of
       None \<Rightarrow> (Inl UpstreamWriteFailure, w)
     | Some (i, sh) \<Rightarrow>
        (Inr (), w\<lparr>spreadsheets :=
           AList.update i (sh\<lparr>rows := (rows sh)[n - 1 := []]\<rparr>) (spreadsheets w)\<rparr>))"

section \<open>Locating a row\<close>

text \<open>
  \<open>rows.findIndex((row) => row[0] == voucherNo)\<close>. The first cell of an empty row is
  \<open>undefined\<close>. The loose equality of a string and a number turns the string into a
  number first: white space around it is dropped; the empty string is 0; a literal
  \<open>0x\<close>, \<open>0o\<close> or \<open>0b\<close> is read in its radix; a decimal literal, with or without sign,
  fraction and exponent, is read as the double nearest to its value; any other string
  is not a number. \<open>str_to_number\<close> is that number when it is an integer, and \<open>None\<close>
  when it is not an integer or not a number: then the string equals no voucher number.
  (Of the white space only the characters of ASCII are modelled.)
\<close>

definition is_space :: "char \<Rightarrow> bool" where
  "is_space ch = (ch \<in> set [CHR '' '', CHR 0x09, CHR 0x0A, CHR 0x0B, CHR 0x0C, CHR 0x0D])"

definition trim :: "string \<Rightarrow> string" where
  "trim s = rev (dropWhile is_space (rev (dropWhile is_space s)))"

definition is_digit :: "char \<Rightarrow> bool" where
  "is_digit ch = (CHR ''0'' \<le> ch \<and> ch \<le> CHR ''9'')"

text \<open>The value of a digit or letter in a radix up to 36; 36 for any other character.\<close>

definition digit_of :: "char \<Rightarrow> int" where
  "digit_of ch =
    (if CHR ''0'' \<le> ch \<and> ch \<le> CHR ''9'' then of_char ch - 48
     else if CHR ''a'' \<le> ch \<and> ch \<le> CHR ''z'' then of_char ch - 87
     else if CHR ''A'' \<le> ch \<and> ch \<le> CHR ''Z'' then of_char ch - 55
     else 36)"

definition radix_value :: "int \<Rightarrow> string \<Rightarrow> int" where
  "radix_value b s = foldl (\<lambda>a ch. b * a + digit_of ch) 0 s"

definition digits_value :: "string \<Rightarrow> int" where
  "digits_value s = radix_value 10 s"

text \<open>A literal is read as a ratio: its numerator and its denominator.\<close>

definition radix_literal :: "int \<Rightarrow> string \<Rightarrow> (int \<times> int) option" where
  "radix_literal b s =
    (if s \<noteq> [] \<and> list_all (\<lambda>ch. digit_of ch < b) s then Some (radix_value b s, 1)
     else None)"

definition exponent_part :: "string \<Rightarrow> int option" where
  "exponent_part s =
    (case s of
       [] \<Rightarrow> None
     | ch # r \<Rightarrow>
        if (ch = CHR ''-'' \<or> ch = CHR ''+'') \<and> r \<noteq> [] \<and> list_all is_digit r
        then Some (if ch = CHR ''-'' then - digits_value r else digits_value r)
        else if list_all is_digit s then Some (digits_value s) else None)"

definition decimal_literal :: "string \<Rightarrow> (int \<times> int) option" where
  "decimal_literal s =
    (let ip = takeWhile is_digit s;
         r1 = dropWhile is_digit s;
         fp = (case r1 of
                 [] \<Rightarrow> []
               | ch # r \<Rightarrow> if ch = CHR ''.'' then takeWhile is_digit r else []);
         r2 = (case r1 of
                 [] \<Rightarrow> []
               | ch # r \<Rightarrow> if ch = CHR ''.'' then dropWhile is_digit r else r1);
         ex = (case r2 of
                 [] \<Rightarrow> Some 0
               | ch # r \<Rightarrow> if ch = CHR ''e'' \<or> ch = CHR ''E'' then exponent_part r else None)
     in if ip = [] \<and> fp = [] then None
        else
          (case ex of
             None \<Rightarrow> None
           | Some e \<Rightarrow>
              (let n = digits_value (ip @ fp);
                   k = e - int (length fp)
               in if 0 \<le> k then Some (n * 10 ^ nat k, 1) else Some (n, 10 ^ nat (- k)))))"

text \<open>A numeric literal: whether it has a minus sign, and its ratio.\<close>

definition numeric_literal :: "string \<Rightarrow> (bool \<times> int \<times> int) option" where
  "numeric_literal s =
    (case s of
       [] \<Rightarrow> Some (False, 0, 1)
     | ch # r \<Rightarrow>
        if ch = CHR ''-'' then map_option (Pair True) (decimal_literal r)
        else if ch = CHR ''+'' then map_option (Pair False) (decimal_literal r)
        else if ch = CHR ''0'' \<and> r \<noteq> [] \<and> hd r \<in> set ''xX''
          then map_option (Pair False) (radix_literal 16 (tl r))
        else if ch = CHR ''0'' \<and> r \<noteq> [] \<and> hd r \<in> set ''oO''
          then map_option (Pair False) (radix_literal 8 (tl r))
        else if ch = CHR ''0'' \<and> r \<noteq> [] \<and> hd r \<in> set ''bB''
          then map_option (Pair False) (radix_literal 2 (tl r))
        else map_option (Pair False) (decimal_literal s))"

definition str_to_number :: "string \<Rightarrow> int option" where
  "str_to_number s =
    (case numeric_literal (trim s) of
       None \<Rightarrow> None
     | Some (neg, a, b) \<Rightarrow> map_option (\<lambda>d. if neg then - d else d) (double_of_ratio a b))"

definition loose_eq :: "jsval \<Rightarrow> int \<Rightarrow> bool" where
  "loose_eq c n =
    (case c of
       JUndef \<Rightarrow> False
     | JNum m \<Rightarrow> m = n
     | JStr s \<Rightarrow> str_to_number s = Some n)"

definition first_cell :: "jsval list \<Rightarrow> jsval" where
  "first_cell row = (case row of [] \<Rightarrow> JUndef | c # _ \<Rightarrow> c)"

text \<open>\<open>findIndex\<close>, with \<open>None\<close> for -1.\<close>

primrec findIndex :: "('a \<Rightarrow> bool) \<Rightarrow> 'a list \<Rightarrow> nat option" where
  "findIndex p [] = None"
| "findIndex p (x # xs) = (if p x then Some 0 else map_option Suc (findIndex p xs))"

definition row_index :: "int \<Rightarrow> jsval list list \<Rightarrow> nat option" where
  "row_index num rs = findIndex (\<lambda>row. loose_eq (first_cell row) num) rs"

section \<open>Record store writes\<close>

text \<open>
  The schema's validation at \<open>save\<close>: \<open>email\<close>, \<open>company\<close> and \<open>transactionType\<close> are
  required (a required string is not empty) and \<open>transactionType\<close> is one of the enum.
\<close>

definition validate :: "voucher \<Rightarrow> bool" where
  "validate v =
    (voucher.email v \<noteq> [] \<and> company v \<noteq> [] \<and>
     (case transactionType v of
        None \<Rightarrow> False
      | Some t \<Rightarrow> t \<in> set [''UPI'', ''Cash'', ''Account'']))"

definition voucher_save :: "voucher \<Rightarrow> world \<Rightarrow> (error + unit) \<times> world" where
  "voucher_save v w =
    (if validate v
     then (Inr (), w\<lparr>vouchers := vouchers w @ [v\<lparr>oid := next_oid w\<rparr>],
                     next_oid := Suc (next_oid w)\<rparr>)
     else (Inl UpstreamWriteFailure, w))"

text \<open>\<open>updateOne\<close> and \<open>deleteOne\<close> act on the first document that satisfies the query.\<close>

primrec update_first :: "('a \<Rightarrow> bool) \<Rightarrow> ('a \<Rightarrow> 'a) \<Rightarrow> 'a list \<Rightarrow> 'a list" where
  "update_first q f [] = []"
| "update_first q f (x # xs) = (if q x then f x # xs else x # update_first q f xs)"

primrec delete_first :: "('a \<Rightarrow> bool) \<Rightarrow> 'a list \<Rightarrow> 'a list" where
  "delete_first q [] = []"
| "delete_first q (x # xs) = (if q x then xs else x # delete_first q xs)"

section \<open>The handlers\<close>

definition sheetURL_of :: "string option \<Rightarrow> string" where
  "sheetURL_of sid =
    ''https://docs.google.com/spreadsheets/d/''
      @ (case sid of None \<Rightarrow> ''undefined'' | Some s \<Rightarrow> s) @ ''/edit''"

text \<open>The row both submit (lines 582-598) and edit (lines 365-381) write.\<close>

definition row_values :: "voucherData \<Rightarrow> int \<Rightarrow> string \<Rightarrow> jsval list" where
  "row_values voucherData num link =
    [JNum num,
     opt_val (date voucherData),
     opt_val (filter_opt voucherData),
     opt_val (payTo voucherData),
     opt_val (accountHead voucherData),
     opt_val (account voucherData),
     opt_val (transactionType voucherData),
     opt_val (amount voucherData),
     opt_val (amountRs voucherData),
     opt_val (checkedBy voucherData),
     opt_val (approvedBy voucherData),
     opt_val (receiverSignature voucherData),
     JStr link]"

text \<open>The document of lines 609-627; the store sets its \<open>_id\<close> at \<open>save\<close>.\<close>

definition new_voucher ::
  "user \<Rightarrow> voucherData \<Rightarrow> string \<Rightarrow> int \<Rightarrow> string \<Rightarrow> string option \<Rightarrow> string option \<Rightarrow> string
     \<Rightarrow> voucher" where
  "new_voucher usr voucherData filterOption n link sid fid fileId =
    \<lparr>date = date voucherData,
     payTo = payTo voucherData,
     accountHead = accountHead voucherData,
     account = account voucherData,
     transactionType = transactionType voucherData,
     amount = amount voucherData,
     amountRs = amountRs voucherData,
     checkedBy = checkedBy voucherData,
     approvedBy = approvedBy voucherData,
     receiverSignature = receiverSignature voucherData,
     oid = 0,
     email = user.email usr,
     company = filterOption,
     voucherNo = n,
     pdfLink = Some link,
     spreadsheetId = sid,
     folderId = fid,
     pdfFileId = Some fileId\<rparr>"

text \<open>The callback of \<open>pdfStream.on("finish")\<close> in submit (lines 565-642).\<close>

definition submit_finish ::
  "user \<Rightarrow> string option \<Rightarrow> voucherData \<Rightarrow> string \<Rightarrow> string option \<Rightarrow> string option \<Rightarrow> int
     \<Rightarrow> world \<Rightarrow> (error + response) \<times> world" where
  "submit_finish usr auth voucherData filterOption sid fid n w =
    (case drive_files_create (filterOption, n) fid (render voucherData n) auth w of
       (Inl err, w1) \<Rightarrow> (Inl err, w1)
     | (Inr (fileId, link), w1) \<Rightarrow>
        (case values_append sid filterOption (row_values voucherData n link) auth w1 of
           (Inl err, w2) \<Rightarrow> (Inl err, w2)
         | (Inr _, w2) \<Rightarrow>
            (case voucher_save
                    (new_voucher usr voucherData filterOption n link sid fid fileId) w2 of
               (Inl err, w3) \<Rightarrow> (Inl err, w3)
             | (Inr _, w3) \<Rightarrow> (Inr (Submitted (sheetURL_of sid) fileId), w3))))"

text \<open>\<open>voucherData.voucherNo || voucherNumber\<close>.\<close>

definition chosen_number :: "int option \<Rightarrow> int \<Rightarrow> int" where
  "chosen_number supplied voucherNumber =
    (case supplied of
       None \<Rightarrow> voucherNumber
     | Some n \<Rightarrow> if n = 0 then voucherNumber else n)"

text \<open>\<open>app.post("/submit")\<close> (lines 484-652).\<close>

definition submit :: "request \<Rightarrow> world \<Rightarrow> (error + response) \<times> world" where
  "submit req w =
    (let voucherData = body req in
     case filter_opt voucherData of
       None \<Rightarrow> (Inl InvalidCategory, w)
     | Some filterOption \<Rightarrow>
        if filterOption \<notin> set companies then (Inl InvalidCategory, w)
        else
          (case authenticateGoogle req w of
             (Inl err, w1) \<Rightarrow> (Inl err, w1)
           | (Inr (usr, auth), w1) \<Rightarrow>
              (case getUserResources (user.email usr) filterOption auth w1 of
                 (Inl err, w2) \<Rightarrow> (Inl err, w2)
               | (Inr (sid, fid, voucherNumber), w2) \<Rightarrow>
                  (let n = chosen_number (body_voucherNo voucherData) voucherNumber in
                   if n = 0 then (Inl VoucherNumberRequired, w2)
                   else submit_finish usr auth voucherData filterOption sid fid n w2))))"

text \<open>
  The update document of \<open>Voucher.updateOne\<close> in edit (lines 405-418). A key whose value
  is \<open>undefined\<close> is left out of the update (as Mongoose does from version 6 on), so a field
  the body lacks keeps its stored value.
\<close>

definition or_stored :: "string option \<Rightarrow> string option \<Rightarrow> string option" where
  "or_stored x stored = (case x of None \<Rightarrow> stored | Some s \<Rightarrow> Some s)"

definition edit_update :: "voucherData \<Rightarrow> string \<Rightarrow> string \<Rightarrow> voucher \<Rightarrow> voucher" where
  "edit_update voucherData link fileId v =
    v\<lparr>date := or_stored (date voucherData) (date v),
      payTo := or_stored (payTo voucherData) (payTo v),
      accountHead := or_stored (accountHead voucherData) (accountHead v),
      account := or_stored (account voucherData) (account v),
      transactionType := or_stored (transactionType voucherData) (transactionType v),
      amount := or_stored (amount voucherData) (amount v),
      amountRs := or_stored (amountRs voucherData) (amountRs v),
      checkedBy := or_stored (checkedBy voucherData) (checkedBy v),
      approvedBy := or_stored (approvedBy voucherData) (approvedBy v),
      receiverSignature := or_stored (receiverSignature voucherData) (receiverSignature v),
      pdfLink := Some link,
      pdfFileId := Some fileId\<rparr>"

text \<open>\<open>if (pdfFileId) await drive.files.delete(...)\<close>: an empty or absent id is skipped.\<close>

definition delete_old_pdf :: "string option \<Rightarrow> string option \<Rightarrow> world \<Rightarrow> (error + unit) \<times> world" where
  "delete_old_pdf fileId auth w =
    (case fileId of
       None \<Rightarrow> (Inr (), w)
     | Some i \<Rightarrow> if i = [] then (Inr (), w) else drive_files_delete i auth w)"

text \<open>
  The query \<open>{ _id: voucherId, email }\<close> (lines 270 and 404): the \<open>_id\<close> of the document is
  the ObjectId the parameter denotes.
\<close>

definition by_id :: "record_id \<Rightarrow> string \<Rightarrow> voucher \<Rightarrow> bool" where
  "by_id voucherId e v = (voucherId = ObjectId (oid v) \<and> voucher.email v = e)"

definition by_number :: "int \<Rightarrow> string \<Rightarrow> voucher \<Rightarrow> bool" where
  "by_number n e v = (voucherNo v = n \<and> voucher.email v = e)"

text \<open>The callback of \<open>pdfStream.on("finish")\<close> in edit (lines 342-433).\<close>

definition edit_finish ::
  "user \<Rightarrow> string option \<Rightarrow> record_id \<Rightarrow> voucherData \<Rightarrow> string \<Rightarrow> voucher \<Rightarrow> world
     \<Rightarrow> (error + response) \<times> world" where
  "edit_finish usr auth voucherId voucherData filterOption existingVoucher w =
    (let sid = spreadsheetId existingVoucher;
         fid = folderId existingVoucher;
         n = voucherNo existingVoucher in
     case delete_old_pdf (pdfFileId existingVoucher) auth w of
       (Inl err, w1) \<Rightarrow> (Inl err, w1)
     | (Inr _, w1) \<Rightarrow>
        (case drive_files_create (filterOption, n) fid (render voucherData n) auth w1 of
           (Inl err, w2) \<Rightarrow> (Inl err, w2)
         | (Inr (fileId, link), w2) \<Rightarrow>
            (case values_get sid filterOption auth w2 of
               Inl err \<Rightarrow> (Inl err, w2)
             | Inr rs \<Rightarrow>
                (case row_index n rs of
                   None \<Rightarrow> (Inl RowNotFound, w2)
                 | Some rowIndex \<Rightarrow>
                    (case values_update sid filterOption (rowIndex + 2)
                            (row_values voucherData n link) auth w2 of
                       (Inl err, w3) \<Rightarrow> (Inl err, w3)
                     | (Inr _, w3) \<Rightarrow>
                        (Inr (Updated (sheetURL_of sid) fileId),
                         w3\<lparr>vouchers :=
                            update_first (by_id voucherId (user.email usr))
                              (edit_update voucherData link fileId) (vouchers w3)\<rparr>))))))"

text \<open>
  \<open>app.put("/edit-voucher/:id")\<close> (lines 259-438). When the parameter is no ObjectId,
  \<open>Voucher.findOne\<close> (line 270) throws as it casts the query, and the handler answers 500
  from its outer \<open>catch\<close> (lines 434-437).
\<close>

definition edit_voucher :: "record_id \<Rightarrow> request \<Rightarrow> world \<Rightarrow> (error + response) \<times> world" where
  "edit_voucher voucherId req w =
    (let voucherData = body req in
     case filter_opt voucherData of
       None \<Rightarrow> (Inl InvalidCategory, w)
     | Some filterOption \<Rightarrow>
        if filterOption \<notin> set companies then (Inl InvalidCategory, w)
        else
          (case authenticateGoogle req w of
             (Inl err, w1) \<Rightarrow> (Inl err, w1)
           | (Inr (usr, auth), w1) \<Rightarrow>
              (case voucherId of
                 NotObjectId _ \<Rightarrow> (Inl CastError, w1)
               | ObjectId _ \<Rightarrow>
                  (case findOne (by_id voucherId (user.email usr)) (vouchers w1) of
                     None \<Rightarrow> (Inl VoucherNotFound, w1)
                   | Some existingVoucher \<Rightarrow>
                      edit_finish usr auth voucherId voucherData filterOption
                        existingVoucher w1))))"

text \<open>\<open>app.delete("/vouchers/:voucherNo")\<close> (lines 440-482).\<close>

definition delete_voucher :: "int \<Rightarrow> request \<Rightarrow> world \<Rightarrow> (error + response) \<times> world" where
  "delete_voucher n req w =
    (case authenticateGoogle req w of
       (Inl err, w1) \<Rightarrow> (Inl err, w1)
     | (Inr (usr, auth), w1) \<Rightarrow>
        (case findOne (by_number n (user.email usr)) (vouchers w1) of
           None \<Rightarrow> (Inl VoucherNotFound, w1)
         | Some existingVoucher \<Rightarrow>
            (let sid = spreadsheetId existingVoucher;
                 sheetTitle = company existingVoucher in
             case delete_old_pdf (pdfFileId existingVoucher) auth w1 of
               (Inl err, w2) \<Rightarrow> (Inl err, w2)
             | (Inr _, w2) \<Rightarrow>
                (case values_get sid sheetTitle auth w2 of
                   Inl err \<Rightarrow> (Inl err, w2)
                 | Inr rs \<Rightarrow>
                    (case (case row_index n rs of
                             None \<Rightarrow> (Inr (), w2)
                           | Some rowIndex \<Rightarrow>
                              values_clear sid sheetTitle (rowIndex + 2) auth w2) of
                       (Inl err, w3) \<Rightarrow> (Inl err, w3)
                     | (Inr _, w3) \<Rightarrow>
                        (Inr Deleted,
                         w3\<lparr>vouchers :=
                            delete_first (by_number n (user.email usr)) (vouchers w3)\<rparr>))))))"

text \<open>
  \<open>app.get("/vouchers")\<close> (lines 238-257): the vouchers of the caller, of a company and a
  date when the query names them, sorted by amount (the stored strings) or by number.
\<close>

definition truthy :: "string option \<Rightarrow> bool" where
  "truthy x = (case x of None \<Rightarrow> False | Some s \<Rightarrow> s \<noteq> [])"

definition list_query :: "string \<Rightarrow> string option \<Rightarrow> string option \<Rightarrow> voucher \<Rightarrow> bool" where
  "list_query e q_company q_date v =
    (voucher.email v = e \<and>
     (if truthy q_company then Some (company v) = q_company else True) \<and>
     (if truthy q_date then date v = q_date else True))"

definition sorted_by :: "string option \<Rightarrow> voucher list \<Rightarrow> voucher list" where
  "sorted_by q_sort vs =
    (if q_sort = Some ''lowToHigh'' then sort_key amount vs
     else if q_sort = Some ''highToLow'' then rev (sort_key amount vs)
     else sort_key voucherNo vs)"

definition list_vouchers ::
  "string option \<Rightarrow> string option \<Rightarrow> string option \<Rightarrow> request \<Rightarrow> world
     \<Rightarrow> (error + response) \<times> world" where
  "list_vouchers q_company q_date q_sort req w =
    (case authenticateGoogle req w of
       (Inl err, w1) \<Rightarrow> (Inl err, w1)
     | (Inr (usr, auth), w1) \<Rightarrow>
        (Inr (Vouchers (sorted_by q_sort
                 (filter (list_query (user.email usr) q_company q_date) (vouchers w1)))),
         w1))"

text \<open>\<open>app.get("/get-voucher-no")\<close> (lines 222-236).\<close>

definition get_voucher_no :: "string option \<Rightarrow> request \<Rightarrow> world \<Rightarrow> (error + response) \<times> world" where
  "get_voucher_no q_filter req w =
    (case q_filter of
       None \<Rightarrow> (Inl InvalidCategory, w)
     | Some f \<Rightarrow>
        if f \<notin> set companies then (Inl InvalidCategory, w)
        else
          (case authenticateGoogle req w of
             (Inl err, w1) \<Rightarrow> (Inl err, w1)
           | (Inr (usr, auth), w1) \<Rightarrow>
              (case getUserResources (user.email usr) f auth w1 of
                 (Inl err, w2) \<Rightarrow> (Inl err, w2)
               | (Inr (sid, fid, voucherNumber), w2) \<Rightarrow> (Inr (NextVoucherNo voucherNumber), w2))))"

section \<open>Notions of the theorems\<close>

text \<open>A category of the fixed registry.\<close>

definition registered :: "string option \<Rightarrow> bool" where
  "registered f = (case f of None \<Rightarrow> False | Some s \<Rightarrow> s \<in> set companies)"

text \<open>
  The sheet of the title can be read with the credential, and no row below its header has
  a first cell equal to the number.
\<close>

definition row_missing :: "string option \<Rightarrow> string \<Rightarrow> string option \<Rightarrow> int \<Rightarrow> world \<Rightarrow> bool" where
  "row_missing sid sheetTitle auth n w =
    (case values_get sid sheetTitle auth w of
       Inl _ \<Rightarrow> False
     | Inr rs \<Rightarrow> row_index n rs = None)"

text \<open>What identifies a voucher and its workspace.\<close>

definition kept :: "voucher \<Rightarrow> nat \<times> string \<times> string \<times> int \<times> string option \<times> string option" where
  "kept v = (oid v, voucher.email v, company v, voucherNo v, spreadsheetId v, folderId v)"

text \<open>
  An id is one the providers have issued so far, or absent; in a world whose ids are
  issued, this holds of the workspace ids every voucher stores and of the ids of all
  spreadsheets and folders. The empty world is such a world and the handlers keep it so.
\<close>

definition issued :: "nat \<Rightarrow> string option \<Rightarrow> bool" where
  "issued k i = (case i of None \<Rightarrow> True | Some s \<Rightarrow> s \<in> set (map fresh_id [0..<k]))"

definition ids_issued :: "world \<Rightarrow> bool" where
  "ids_issued w =
    (list_all (\<lambda>v. issued (next_id w) (spreadsheetId v) \<and> issued (next_id w) (folderId v))
        (vouchers w) \<and>
     list_all (\<lambda>i. issued (next_id w) (Some i)) (map fst (spreadsheets w)) \<and>
     list_all (\<lambda>i. issued (next_id w) (Some i)) (map fst (folders w)))"


section \<open>Runs\<close>

text \<open>
  A run is a sequence of submit and delete requests, handled one after the other, each
  on the world the one before has left (whether it succeeded or failed).
\<close>

datatype action = Submit request | Delete int request

primrec step :: "action \<Rightarrow> world \<Rightarrow> world" where
  "step (Submit req) w = snd (submit req w)"
| "step (Delete n req) w = snd (delete_voucher n req w)"

primrec run :: "action list \<Rightarrow> world \<Rightarrow> world" where
  "run [] w = w"
| "run (a # as) w = run as (step a w)"

text \<open>A request whose body carries no voucher number, or a falsy one.\<close>

definition unnumbered :: "request \<Rightarrow> bool" where
  "unnumbered req = (case body_voucherNo (body req) of None \<Rightarrow> True | Some n \<Rightarrow> n = 0)"

primrec allocated :: "action \<Rightarrow> bool" where
  "allocated (Submit req) = unnumbered req"
| "allocated (Delete n req) = True"

primrec is_submit :: "action \<Rightarrow> bool" where
  "is_submit (Submit req) = True"
| "is_submit (Delete n req) = False"

section \<open>A scenario\<close>

text \<open>
  Two owners known to the identity provider by their tokens, an empty world, and a form
  for the company Contentstack. \<open>ex_request s t d\<close> is a request of session \<open>s\<close> with
  bearer token \<open>t\<close> and body \<open>d\<close>.
\<close>

definition ex_alice :: user where
  "ex_alice = \<lparr>user.email = ''alice@example.org'', name = ''Alice'', picture = []\<rparr>"

definition ex_bob :: user where
  "ex_bob = \<lparr>user.email = ''bob@example.org'', name = ''Bob'', picture = []\<rparr>"

definition ex_world :: world where
  "ex_world =
    \<lparr>vouchers = [], next_oid = 0, spreadsheets = [], folders = [], files = [], next_id = 0,
     sessions = [], userinfo = [(''ta'', ex_alice), (''tb'', ex_bob)]\<rparr>"

definition ex_form :: voucherData where
  "ex_form =
    \<lparr>date = Some ''2024-01-01'', payTo = Some ''Carol'', accountHead = None, account = None,
     transactionType = Some ''UPI'', amount = Some ''500'', amountRs = Some ''Five hundred'',
     checkedBy = None, approvedBy = None, receiverSignature = None,
     filter_opt = Some ''Contentstack'', body_voucherNo = None\<rparr>"

definition ex_request :: "string \<Rightarrow> string \<Rightarrow> voucherData \<Rightarrow> request" where
  "ex_request s t d = \<lparr>session_id = s, bearer = Some t, body = d\<rparr>"

text \<open>The world after Alice has submitted the form once, and after she has done so twice.\<close>

definition ex_world1 :: world where
  "ex_world1 = snd (submit (ex_request ''s1'' ''ta'' ex_form) ex_world)"

definition ex_world2 :: world where
  "ex_world2 = snd (submit (ex_request ''s2'' ''ta'' ex_form) ex_world1)"

text \<open>
  The form with a voucher number of its own, and the world after Alice, holding the
  numbers 1 and 2, has submitted the form numbered 1.
\<close>

definition ex_form_numbered :: "int \<Rightarrow> voucherData" where
  "ex_form_numbered n = ex_form\<lparr>body_voucherNo := Some n\<rparr>"

definition ex_world3 :: world where
  "ex_world3 = snd (submit (ex_request ''s3'' ''ta'' (ex_form_numbered 1)) ex_world2)"

text \<open>The world after Alice, on the empty store, has submitted the form numbered \<open>2^53\<close>.\<close>

definition ex_big :: world where
  "ex_big = snd (submit (ex_request ''s1'' ''ta'' (ex_form_numbered 9007199254740992)) ex_world)"

text \<open>The form for a category that is not in the registry.\<close>

definition ex_form_acme :: voucherData where
  "ex_form_acme = ex_form\<lparr>filter_opt := Some ''Acme''\<rparr>"

text \<open>The world after Alice's first submit, once the row has been removed from the sheet by hand.\<close>

definition ex_desync :: world where
  "ex_desync =
    ex_world1\<lparr>spreadsheets :=
      [(''g'', \<lparr>title = ''Contentstack'', rows = [map JStr headerValues]\<rparr>)]\<rparr>"

text \<open>
  The world after Alice's first submit, once the sheet has been renamed Surfboard by hand,
  and a form that names that category and another amount.
\<close>

definition ex_renamed :: world where
  "ex_renamed =
    ex_world1\<lparr>spreadsheets :=
      map (\<lambda>(i, sh). (i, sh\<lparr>title := ''Surfboard''\<rparr>)) (spreadsheets ex_world1)\<rparr>"

definition ex_form_edit :: voucherData where
  "ex_form_edit = ex_form\<lparr>filter_opt := Some ''Surfboard'', amount := Some ''750''\<rparr>"

text \<open>
  The world after Alice has submitted the form for Contentstack and then for Surfboard:
  she holds a voucher of number 1 under each company.
\<close>

definition ex_form_surf :: voucherData where
  "ex_form_surf = ex_form\<lparr>filter_opt := Some ''Surfboard''\<rparr>"

definition ex_two :: world where
  "ex_two = snd (submit (ex_request ''s6'' ''ta'' ex_form_surf) ex_world1)"


text \<open>Alice submits the form twice and then deletes her voucher of number 1.\<close>

definition ex_run :: "action list" where
  "ex_run =
    [Submit (ex_request ''s1'' ''ta'' ex_form), Submit (ex_request ''s2'' ''ta'' ex_form),
     Delete 1 (ex_request ''s3'' ''ta'' ex_form)]"

section \<open>Numbering\<close>

lemma highest_None: "(highest vs = None) = (vs = [])"
  by (induction vs) (auto split: option.splits)

lemma highest_Max: "vs \<noteq> [] \<Longrightarrow> \<exists>h. highest vs = Some h \<and> voucherNo h = Max (set (map voucherNo vs))"
proof (induction vs)
  case Nil
  then show ?case by simp
next
  case (Cons v vs)
  show ?case
  proof (cases "vs = []")
    case True
    then show ?thesis by simp
  next
    case False
    with Cons.IH obtain h where h: "highest vs = Some h"
      "voucherNo h = Max (set (map voucherNo vs))" by blast
    from False have ne: "voucherNo ` set vs \<noteq> {}" by simp
    have "Max (insert (voucherNo v) (voucherNo ` set vs)) = max (voucherNo v) (Max (voucherNo ` set vs))"
      using ne by (simp add: Max_insert)
    with h show ?thesis by (auto simp: max_def)
  qed
qed

lemma createSpreadsheet_vouchers: "vouchers (snd (createSpreadsheet c a w)) = vouchers w"
  by (simp add: createSpreadsheet_def Let_def split: option.splits)

lemma createDriveFolder_vouchers: "vouchers (snd (createDriveFolder c a w)) = vouchers w"
  by (simp add: createDriveFolder_def Let_def split: option.splits)

lemma to_double_exact: "\<bar>k\<bar> \<le> 2 ^ 53 \<Longrightarrow> to_double k = k"
  by (simp add: to_double_def)

lemma voucherNumber_of_Max:
  "voucherNumber_of e c w =
     (if numbers e c w = [] then 1 else js_add (Max (set (numbers e c w))) 1)"
proof (cases "filter (of_pair e c) (vouchers w) = []")
  case True
  then show ?thesis
    by (simp add: voucherNumber_of_def findHighest_def numbers_def)
next
  case False
  from highest_Max [OF False] obtain h where
    "highest (filter (of_pair e c) (vouchers w)) = Some h"
    "voucherNo h = Max (set (map voucherNo (filter (of_pair e c) (vouchers w))))" by blast
  with False show ?thesis
    by (simp add: voucherNumber_of_def findHighest_def numbers_def)
qed

lemma voucherNumber_of_exact:
  assumes "numbers e c w \<noteq> []"
    and "- (2 ^ 53) \<le> Max (set (numbers e c w))" "Max (set (numbers e c w)) < 2 ^ 53"
  shows "voucherNumber_of e c w = Max (set (numbers e c w)) + 1"
proof -
  from assms(2,3) have "\<bar>Max (set (numbers e c w)) + 1\<bar> \<le> 2 ^ 53" by simp
  from to_double_exact [OF this] assms(1) show ?thesis
    by (simp add: voucherNumber_of_Max js_add_def)
qed

lemma findOne_None_numbers:
  "(findOne (of_pair e c) (vouchers w) = None) = (numbers e c w = [])"
  by (simp add: findOne_def numbers_def find_None_iff filter_empty_conv Ball_def)

lemma getUserResources_number:
  assumes "getUserResources e c auth w = (Inr (sid, fid, n), w')"
  shows "n = voucherNumber_of e c w"
proof (cases "findOne (of_pair e c) (vouchers w)")
  case (Some ex)
  with assms show ?thesis by (clarsimp simp: getUserResources_def)
next
  case None
  show ?thesis
  proof (cases auth)
    case None': None
    with None assms show ?thesis
      by (simp add: getUserResources_def createSpreadsheet_def)
  next
    case (Some t)
    with None assms show ?thesis
      by (clarsimp simp: getUserResources_def createSpreadsheet_def createDriveFolder_def
          Let_def voucherNumber_of_def)
  qed
qed

lemma getUserResources_returns:
  assumes "numbers e c w \<noteq> [] \<or> auth \<noteq> None"
  shows "\<exists>r w'. getUserResources e c auth w = (Inr r, w')"
proof (cases "findOne (of_pair e c) (vouchers w)")
  case (Some ex)
  then show ?thesis by (simp add: getUserResources_def)
next
  case None
  with assms obtain t where "auth = Some t" by (auto simp: findOne_None_numbers)
  with None show ?thesis
    by (simp add: getUserResources_def createSpreadsheet_def createDriveFolder_def Let_def)
qed

text \<open>
  Claim C1, as stated, fails where the addition of line 190 is not exact. Alice submits
  the form numbered \<open>2^53 = 9007199254740992\<close>; this is then the highest number of the
  pair, and \<open>getUserResources\<close> returns \<open>9007199254740992\<close> again, not
  \<open>9007199254740993\<close>. Her next submission without a number of its own is stored under
  the number the pair already holds.
\<close>

theorem next_number_after_2_53:
  "fst (submit (ex_request ''s1'' ''ta'' (ex_form_numbered 9007199254740992)) ex_world)
     = Inr (Submitted ''https://docs.google.com/spreadsheets/d/g/edit'' ''g00'') \<and>
   numbers ''alice@example.org'' ''Contentstack'' ex_big = [9007199254740992] \<and>
   fst (getUserResources ''alice@example.org'' ''Contentstack'' None ex_big)
     = Inr (Some ''g'', Some ''g0'', 9007199254740992) \<and>
   Max (set (numbers ''alice@example.org'' ''Contentstack'' ex_big)) + 1 = 9007199254740993 \<and>
   numbers ''alice@example.org'' ''Contentstack''
     (snd (submit (ex_request ''s2'' ''ta'' ex_form) ex_big))
     = [9007199254740992, 9007199254740992]"
  by code_simp

text \<open>
  Claim C1, amended. For every owner and company, \<open>getUserResources\<close> returns 1 when the
  store holds no voucher of the pair, and else the sum, as doubles, of the highest number
  among the vouchers of the pair and 1. That sum is the highest number plus 1 whenever
  the highest number is at least \<open>-2^53\<close> and less than \<open>2^53\<close>. The operation returns
  whenever the pair has a voucher, and also when it has none and the request carries the
  credential the provisioning of a workspace needs.
\<close>

theorem getUserResources_next_number:
  "(numbers e c w \<noteq> [] \<or> auth \<noteq> None \<longrightarrow>
      (\<exists>r w'. getUserResources e c auth w = (Inr r, w'))) \<and>
   (\<forall>sid fid n w'. getUserResources e c auth w = (Inr (sid, fid, n), w') \<longrightarrow>
      n = (if numbers e c w = [] then 1 else js_add (Max (set (numbers e c w))) 1) \<and>
      (numbers e c w \<noteq> [] \<and> - (2 ^ 53) \<le> Max (set (numbers e c w)) \<and>
       Max (set (numbers e c w)) < 2 ^ 53 \<longrightarrow>
         n = Max (set (numbers e c w)) + 1))"
proof (intro conjI allI impI)
  assume "numbers e c w \<noteq> [] \<or> auth \<noteq> None"
  then show "\<exists>r w'. getUserResources e c auth w = (Inr r, w')"
    by (rule getUserResources_returns)
next
  fix sid fid n w'
  assume "getUserResources e c auth w = (Inr (sid, fid, n), w')"
  from getUserResources_number [OF this]
  show "n = (if numbers e c w = [] then 1 else js_add (Max (set (numbers e c w))) 1)"
    by (simp add: voucherNumber_of_Max)
next
  fix sid fid n w'
  assume g: "getUserResources e c auth w = (Inr (sid, fid, n), w')"
    and b: "numbers e c w \<noteq> [] \<and> - (2 ^ 53) \<le> Max (set (numbers e c w)) \<and>
       Max (set (numbers e c w)) < 2 ^ 53"
  from b have "voucherNumber_of e c w = Max (set (numbers e c w)) + 1"
    by (intro voucherNumber_of_exact) simp_all
  with getUserResources_number [OF g] show "n = Max (set (numbers e c w)) + 1" by simp
qed

lemma ex_world1_numbers: "numbers ''alice@example.org'' ''Contentstack'' ex_world1 = [1]"
  by code_simp

theorem getUserResources_next_number_witness:
  "(\<exists>sid fid w'. getUserResources ''alice@example.org'' ''Contentstack'' (Some ''ta'') ex_world
       = (Inr (sid, fid, 1), w')) \<and>
   (\<exists>sid fid w'. getUserResources ''alice@example.org'' ''Contentstack'' None ex_world1
       = (Inr (sid, fid, 2), w'))"
proof
  have e: "numbers ''alice@example.org'' ''Contentstack'' ex_world = []"
    by (simp add: numbers_def ex_world_def)
  from getUserResources_next_number
    [of "''alice@example.org''" "''Contentstack''" ex_world "Some ''ta''"]
  show "\<exists>sid fid w'. getUserResources ''alice@example.org'' ''Contentstack'' (Some ''ta'') ex_world
       = (Inr (sid, fid, 1), w')"
    unfolding e by auto
next
  from getUserResources_next_number
    [of "''alice@example.org''" "''Contentstack''" ex_world1 None]
  show "\<exists>sid fid w'. getUserResources ''alice@example.org'' ''Contentstack'' None ex_world1
       = (Inr (sid, fid, 2), w')"
    unfolding ex_world1_numbers by auto
qed

section \<open>What the calls change\<close>

lemma authenticateGoogle_frame:
  assumes "authenticateGoogle req w = (r, w1)"
  shows "vouchers w1 = vouchers w \<and> next_oid w1 = next_oid w \<and>
         spreadsheets w1 = spreadsheets w \<and> folders w1 = folders w \<and> files w1 = files w \<and>
         next_id w1 = next_id w \<and> userinfo w1 = userinfo w"
  using assms by (auto simp: authenticateGoogle_def split: option.splits)

lemma drive_files_create_Inr:
  assumes "drive_files_create nm p pdf auth w = (Inr (fileId, link), w1)"
  shows "fileId = fresh_id (next_id w) \<and> link = webViewLink fileId \<and>
         w1 = w\<lparr>files := AList.update fileId
                  \<lparr>file_name = nm, parent = p, content = pdf\<rparr> (files w),
                 next_id := Suc (next_id w)\<rparr> \<and>
         auth \<noteq> None \<and> (\<exists>q. p = Some q \<and> map_of (folders w) q \<noteq> None)"
  using assms by (auto simp: drive_files_create_def Let_def split: option.splits)

lemma values_append_Inr:
  assumes "values_append sid t vals auth w = (Inr u, w1)"
  shows "\<exists>i sh. sheet_of sid t auth w = Some (i, sh) \<and>
         w1 = w\<lparr>spreadsheets :=
                  AList.update i (sh\<lparr>rows := rows sh @ [vals]\<rparr>) (spreadsheets w)\<rparr>"
  using assms by (auto simp: values_append_def split: option.splits)

lemma submit_finish_Inr:
  assumes "submit_finish usr auth d f sid fid n w = (Inr resp, w')"
  shows "\<exists>fileId link w1 w2.
      drive_files_create (f, n) fid (render d n) auth w = (Inr (fileId, link), w1) \<and>
      values_append sid f (row_values d n link) auth w1 = (Inr (), w2) \<and>
      validate (new_voucher usr d f n link sid fid fileId) \<and>
      w' = w2\<lparr>vouchers := vouchers w2 @
                  [(new_voucher usr d f n link sid fid fileId)\<lparr>oid := next_oid w2\<rparr>],
              next_oid := Suc (next_oid w2)\<rparr> \<and>
      resp = Submitted (sheetURL_of sid) fileId"
  using assms
  by (auto simp: submit_finish_def voucher_save_def split: prod.splits sum.splits if_splits)

lemma submit_Inr:
  assumes "submit req w = (Inr resp, w')"
  shows "\<exists>f usr auth w1 sid fid vn w2.
      filter_opt (body req) = Some f \<and> f \<in> set companies \<and>
      authenticateGoogle req w = (Inr (usr, auth), w1) \<and>
      getUserResources (user.email usr) f auth w1 = (Inr (sid, fid, vn), w2) \<and>
      chosen_number (body_voucherNo (body req)) vn \<noteq> 0 \<and>
      submit_finish usr auth (body req) f sid fid
          (chosen_number (body_voucherNo (body req)) vn) w2 = (Inr resp, w')"
  using assms
  by (auto simp: submit_def Let_def split: option.splits prod.splits sum.splits if_splits)

lemma getUserResources_frame:
  assumes "getUserResources e c a w = (r, w')"
  shows "vouchers w' = vouchers w \<and> next_oid w' = next_oid w \<and> files w' = files w \<and>
         sessions w' = sessions w \<and> userinfo w' = userinfo w"
  using assms
  by (auto simp: getUserResources_def createSpreadsheet_def createDriveFolder_def Let_def
      split: option.splits)

lemma submit_stored:
  assumes "submit req w = (Inr resp, w')"
  shows "\<exists>f usr auth w1 sid fid w2 fileId.
      filter_opt (body req) = Some f \<and> f \<in> set companies \<and>
      authenticateGoogle req w = (Inr (usr, auth), w1) \<and>
      getUserResources (user.email usr) f auth w1
        = (Inr (sid, fid, voucherNumber_of (user.email usr) f w), w2) \<and>
      chosen_number (body_voucherNo (body req)) (voucherNumber_of (user.email usr) f w) \<noteq> 0 \<and>
      validate (new_voucher usr (body req) f
         (chosen_number (body_voucherNo (body req)) (voucherNumber_of (user.email usr) f w))
         (webViewLink fileId) sid fid fileId) \<and>
      vouchers w' = vouchers w @
        [(new_voucher usr (body req) f
            (chosen_number (body_voucherNo (body req)) (voucherNumber_of (user.email usr) f w))
            (webViewLink fileId) sid fid fileId)\<lparr>oid := next_oid w\<rparr>] \<and>
      resp = Submitted (sheetURL_of sid) fileId"
proof -
  from submit_Inr [OF assms] obtain f usr auth w1 sid fid vn w2 where
    f: "filter_opt (body req) = Some f" "f \<in> set companies" and
    au: "authenticateGoogle req w = (Inr (usr, auth), w1)" and
    gr: "getUserResources (user.email usr) f auth w1 = (Inr (sid, fid, vn), w2)" and
    nz: "chosen_number (body_voucherNo (body req)) vn \<noteq> 0" and
    fin: "submit_finish usr auth (body req) f sid fid
          (chosen_number (body_voucherNo (body req)) vn) w2 = (Inr resp, w')"
    by blast
  let ?n = "chosen_number (body_voucherNo (body req)) vn"
  from submit_finish_Inr [OF fin] obtain fileId link w3 w4 where
    dc: "drive_files_create (f, ?n) fid (render (body req) ?n) auth w2 = (Inr (fileId, link), w3)" and
    va: "values_append sid f (row_values (body req) ?n link) auth w3 = (Inr (), w4)" and
    ok: "validate (new_voucher usr (body req) f ?n link sid fid fileId)" and
    w': "w' = w4\<lparr>vouchers := vouchers w4 @
                  [(new_voucher usr (body req) f ?n link sid fid fileId)\<lparr>oid := next_oid w4\<rparr>],
              next_oid := Suc (next_oid w4)\<rparr>" and
    resp: "resp = Submitted (sheetURL_of sid) fileId"
    by blast
  have v1: "vouchers w1 = vouchers w" "next_oid w1 = next_oid w"
    using authenticateGoogle_frame [OF au] by simp_all
  have v2: "vouchers w2 = vouchers w1" "next_oid w2 = next_oid w1"
    using getUserResources_frame [OF gr] by simp_all
  have l: "link = webViewLink fileId" and v3: "vouchers w3 = vouchers w2" "next_oid w3 = next_oid w2"
    using drive_files_create_Inr [OF dc] by auto
  have v4: "vouchers w4 = vouchers w3" "next_oid w4 = next_oid w3"
    using values_append_Inr [OF va] by auto
  have vn: "vn = voucherNumber_of (user.email usr) f w"
    using getUserResources_number [OF gr] v1 by (simp add: voucherNumber_of_def)
  show ?thesis
    using f au gr nz ok w' resp v1 v2 v3 v4 l vn by auto
qed

lemma ex_submit3:
  "submit (ex_request ''s3'' ''ta'' (ex_form_numbered 1)) ex_world2
     = (Inr (Submitted ''https://docs.google.com/spreadsheets/d/g/edit'' ''g0000''), ex_world3)"
proof -
  have "fst (submit (ex_request ''s3'' ''ta'' (ex_form_numbered 1)) ex_world2)
      = Inr (Submitted ''https://docs.google.com/spreadsheets/d/g/edit'' ''g0000'')"
    by code_simp
  then show ?thesis by (simp add: ex_world3_def prod_eq_iff)
qed

lemma ex_numbers2: "numbers ''alice@example.org'' ''Contentstack'' ex_world2 = [1, 2]"
  by code_simp

lemma ex_numbers3: "numbers ''alice@example.org'' ''Contentstack'' ex_world3 = [1, 2, 1]"
  by code_simp

lemma ex_next2: "voucherNumber_of ''alice@example.org'' ''Contentstack'' ex_world2 = 3"
  by code_simp

lemma submit_supplied_number:
  assumes "submit req w = (Inr resp, w')" "body_voucherNo (body req) = Some n" "n \<noteq> 0"
  shows "\<exists>v. vouchers w' = vouchers w @ [v] \<and> voucherNo v = n"
  using submit_stored [OF assms(1)] assms(2,3)
  by (auto simp: chosen_number_def new_voucher_def)

text \<open>
  Claim C4. A successful submit whose body carries a truthy \<open>voucherNo\<close> stores the
  voucher under that number, whatever the allocator computed. There is such a request,
  reachable through submit alone, after which the numbers of the pair are neither unique
  nor increasing: Alice holds the numbers 1 and 2 and submits a form numbered 1.
\<close>

theorem submit_client_number_wins:
  "(\<forall>req w resp w' n.
      submit req w = (Inr resp, w') \<and> body_voucherNo (body req) = Some n \<and> n \<noteq> 0 \<longrightarrow>
      (\<exists>v. vouchers w' = vouchers w @ [v] \<and> voucherNo v = n)) \<and>
   (\<exists>req w resp w' e c n.
      body_voucherNo (body req) = Some n \<and> n \<noteq> 0 \<and>
      submit req w = (Inr resp, w') \<and> numbers e c w' = numbers e c w @ [n] \<and>
      n \<noteq> voucherNumber_of e c w \<and>
      distinct (numbers e c w) \<and> sorted (numbers e c w) \<and>
      \<not> distinct (numbers e c w') \<and> \<not> sorted (numbers e c w'))"
proof (intro conjI allI impI)
  fix req w resp w' n
  assume "submit req w = (Inr resp, w') \<and> body_voucherNo (body req) = Some n \<and> n \<noteq> 0"
  then show "\<exists>v. vouchers w' = vouchers w @ [v] \<and> voucherNo v = n"
    using submit_supplied_number by blast
next
  let ?req = "ex_request ''s3'' ''ta'' (ex_form_numbered 1)"
  have b: "body_voucherNo (body ?req) = Some 1"
    by (simp add: ex_request_def ex_form_numbered_def)
  show "\<exists>req w resp w' e c n.
      body_voucherNo (body req) = Some n \<and> n \<noteq> 0 \<and>
      submit req w = (Inr resp, w') \<and> numbers e c w' = numbers e c w @ [n] \<and>
      n \<noteq> voucherNumber_of e c w \<and>
      distinct (numbers e c w) \<and> sorted (numbers e c w) \<and>
      \<not> distinct (numbers e c w') \<and> \<not> sorted (numbers e c w')"
    apply (rule exI [of _ ?req], rule exI [of _ ex_world2])
    apply (rule exI [of _ "Submitted ''https://docs.google.com/spreadsheets/d/g/edit'' ''g0000''"])
    apply (rule exI [of _ ex_world3], rule exI [of _ "''alice@example.org''"])
    apply (rule exI [of _ "''Contentstack''"], rule exI [of _ 1])
    using b ex_submit3 by (simp add: ex_numbers2 ex_numbers3 ex_next2)
qed

theorem submit_client_number_wins_witness:
  "\<exists>v. vouchers ex_world3 = vouchers ex_world2 @ [v] \<and> voucherNo v = 1"
proof -
  have b: "body_voucherNo (body (ex_request ''s3'' ''ta'' (ex_form_numbered 1))) = Some 1"
    by (simp add: ex_request_def ex_form_numbered_def)
  from submit_client_number_wins have
    "\<forall>req w resp w' n.
      submit req w = (Inr resp, w') \<and> body_voucherNo (body req) = Some n \<and> n \<noteq> 0 \<longrightarrow>
      (\<exists>v. vouchers w' = vouchers w @ [v] \<and> voucherNo v = n)" by (rule conjunct1)
  moreover have "(1::int) \<noteq> 0" by simp
  ultimately show ?thesis using ex_submit3 b by blast
qed

section \<open>Editing a voucher that is not the caller's\<close>

lemma edit_voucher_unregistered:
  "\<not> registered (filter_opt (body req)) \<Longrightarrow> edit_voucher vid req w = (Inl InvalidCategory, w)"
  by (simp add: edit_voucher_def registered_def Let_def split: option.splits)

lemma findOne_by_id: "findOne (by_id vid e) vs = Some ex \<Longrightarrow> vid = ObjectId (oid ex)"
  by (auto simp: findOne_def find_Some_iff by_id_def)

lemma edit_voucher_missing:
  assumes "registered (filter_opt (body req))"
    "authenticateGoogle req w = (Inr (usr, auth), w1)"
    "findOne (by_id vid (user.email usr)) (vouchers w) = None"
  shows "edit_voucher vid req w =
    (case vid of
       ObjectId i \<Rightarrow> (Inl VoucherNotFound, w1)
     | NotObjectId s \<Rightarrow> (Inl CastError, w1))"
proof -
  have "vouchers w1 = vouchers w" using authenticateGoogle_frame [OF assms(2)] by simp
  with assms show ?thesis
    by (auto simp: edit_voucher_def registered_def Let_def split: option.splits record_id.splits)
qed

text \<open>
  Claim C5, as stated, fails in two ways. An edit request whose category is not
  registered is answered "Invalid filter option" before the caller is identified or the
  record looked up: Alice holds no voucher of id 7 and sends such a request. And an edit
  request whose \<open>:id\<close> is not the text of an ObjectId, as the text \<open>7\<close> is not, belongs to no
  voucher, yet it is answered 500 with the error of the cast, not "Voucher not found".
\<close>

theorem edit_unknown_id_other_failures:
  "findOne (by_id (ObjectId 7) (user.email ex_alice)) (vouchers ex_world1) = None \<and>
   fst (edit_voucher (ObjectId 7) (ex_request ''s9'' ''ta'' ex_form_acme) ex_world1)
     = Inl InvalidCategory \<and>
   findOne (by_id (NotObjectId ''7'') (user.email ex_alice)) (vouchers ex_world1) = None \<and>
   fst (edit_voucher (NotObjectId ''7'') (ex_request ''s9'' ''ta'' ex_form) ex_world1)
     = Inl CastError"
  by code_simp

text \<open>
  Claim C5, amended. Take an edit request of an identified caller whose record id
  belongs to no voucher of the caller (to no voucher at all, or to a voucher of another
  owner). When its category is registered and its id is the text of an ObjectId, it
  fails with \<open>VoucherNotFound\<close>. When its category is not registered it fails with
  \<open>InvalidCategory\<close>, and when its category is registered and its id is no ObjectId it
  fails with the error of the cast. In each case the vouchers, the spreadsheets, the
  folders and the files are those before the request.
\<close>

theorem edit_voucher_not_found:
  assumes "authenticateGoogle req w = (Inr (usr, auth), w1)"
    and "findOne (by_id vid (user.email usr)) (vouchers w) = None"
  shows "edit_voucher vid req w =
           (if \<not> registered (filter_opt (body req)) then (Inl InvalidCategory, w)
            else case vid of
                   ObjectId i \<Rightarrow> (Inl VoucherNotFound, w1)
                 | NotObjectId s \<Rightarrow> (Inl CastError, w1)) \<and>
         vouchers w1 = vouchers w \<and> spreadsheets w1 = spreadsheets w \<and>
         folders w1 = folders w \<and> files w1 = files w"
  using edit_voucher_missing [OF _ assms] edit_voucher_unregistered [of req vid w]
    authenticateGoogle_frame [OF assms(1)]
  by simp

text \<open>
  Alice's voucher has the id 0. Her request for the id 7, which no voucher has, and
  Bob's request for the id 0 are both answered "Voucher not found".
\<close>

theorem edit_voucher_not_found_witness:
  "map kept (vouchers ex_world1)
     = [(0, ''alice@example.org'', ''Contentstack'', 1, Some ''g'', Some ''g0'')] \<and>
   fst (edit_voucher (ObjectId 7) (ex_request ''s9'' ''ta'' ex_form) ex_world1)
     = Inl VoucherNotFound \<and>
   fst (edit_voucher (ObjectId 0) (ex_request ''s9'' ''tb'' ex_form) ex_world1)
     = Inl VoucherNotFound \<and>
   vouchers (snd (edit_voucher (ObjectId 0) (ex_request ''s9'' ''tb'' ex_form) ex_world1))
     = vouchers ex_world1 \<and>
   spreadsheets (snd (edit_voucher (ObjectId 0) (ex_request ''s9'' ''tb'' ex_form) ex_world1))
     = spreadsheets ex_world1 \<and>
   files (snd (edit_voucher (ObjectId 0) (ex_request ''s9'' ''tb'' ex_form) ex_world1))
     = files ex_world1"
proof -
  let ?ra = "ex_request ''s9'' ''ta'' ex_form"
  let ?rb = "ex_request ''s9'' ''tb'' ex_form"
  have k: "map kept (vouchers ex_world1)
     = [(0, ''alice@example.org'', ''Contentstack'', 1, Some ''g'', Some ''g0'')]"
    by code_simp
  have "fst (authenticateGoogle ?ra ex_world1) = Inr (ex_alice, Some ''ta'')"
    by code_simp
  then obtain wa where a: "authenticateGoogle ?ra ex_world1 = (Inr (ex_alice, Some ''ta''), wa)"
    by (cases "authenticateGoogle ?ra ex_world1") simp
  have "fst (authenticateGoogle ?rb ex_world1) = Inr (ex_bob, Some ''tb'')"
    by code_simp
  then obtain wb where b: "authenticateGoogle ?rb ex_world1 = (Inr (ex_bob, Some ''tb''), wb)"
    by (cases "authenticateGoogle ?rb ex_world1") simp
  have na: "findOne (by_id (ObjectId 7) (user.email ex_alice)) (vouchers ex_world1) = None"
    by code_simp
  have nb: "findOne (by_id (ObjectId 0) (user.email ex_bob)) (vouchers ex_world1) = None"
    by code_simp
  have r: "registered (filter_opt (body ?ra))" "registered (filter_opt (body ?rb))"
    by code_simp+
  from edit_voucher_not_found [OF a na] r
  have 1: "fst (edit_voucher (ObjectId 7) ?ra ex_world1) = Inl VoucherNotFound" by simp
  from edit_voucher_not_found [OF b nb] r
  have 2: "edit_voucher (ObjectId 0) ?rb ex_world1 = (Inl VoucherNotFound, wb)"
    "vouchers wb = vouchers ex_world1" "spreadsheets wb = spreadsheets ex_world1"
    "files wb = files ex_world1"
    by simp_all
  from k 1 2 show ?thesis by simp
qed

section \<open>A voucher whose row is not in the sheet\<close>

lemma str_to_number_examples:
  "map str_to_number
     ['''', ''1'', ''-7'', '' 1 '', ''1.0'', ''1e0'', ''0x1'', ''1.5'', ''Voucher No.'',
      ''9007199254740993'']
   = [Some 0, Some 1, Some (- 7), Some 1, Some 1, Some 1, Some 1, None, None,
      Some 9007199254740992]"
  by code_simp

lemma delete_old_pdf_frame:
  assumes "delete_old_pdf i a w = (r, w')"
  shows "vouchers w' = vouchers w \<and> next_oid w' = next_oid w \<and>
         spreadsheets w' = spreadsheets w \<and> folders w' = folders w \<and>
         next_id w' = next_id w \<and> sessions w' = sessions w \<and> userinfo w' = userinfo w"
  using assms
  by (auto simp: delete_old_pdf_def drive_files_delete_def split: option.splits if_splits)

lemma values_get_cong:
  "spreadsheets w' = spreadsheets w \<Longrightarrow> values_get sid t a w' = values_get sid t a w"
  by (simp add: values_get_def sheet_of_def split: option.splits)

lemma find_delete_first: "find q xs = Some x \<Longrightarrow> delete_first q xs = remove1 x xs"
  by (induction xs) (auto simp: find_Some_iff split: if_splits)

lemma delete_voucher_row_missing:
  assumes au: "authenticateGoogle req w = (Inr (usr, auth), w1)"
    and ex: "findOne (by_number n (user.email usr)) (vouchers w) = Some ex"
    and dl: "delete_old_pdf (pdfFileId ex) auth w1 = (Inr (), w2)"
    and rm: "row_missing (spreadsheetId ex) (company ex) auth n w"
  shows "delete_voucher n req w = (Inr Deleted, w2\<lparr>vouchers := remove1 ex (vouchers w)\<rparr>)"
proof -
  have v1: "vouchers w1 = vouchers w" "spreadsheets w1 = spreadsheets w"
    using authenticateGoogle_frame [OF au] by simp_all
  have v2: "vouchers w2 = vouchers w1" "spreadsheets w2 = spreadsheets w1"
    using delete_old_pdf_frame [OF dl] by simp_all
  have g: "values_get (spreadsheetId ex) (company ex) auth w2
         = values_get (spreadsheetId ex) (company ex) auth w"
    using v1 v2 by (intro values_get_cong) simp
  from rm obtain rs where rs: "values_get (spreadsheetId ex) (company ex) auth w = Inr rs"
    "row_index n rs = None"
    by (auto simp: row_missing_def split: sum.splits)
  have d: "delete_first (by_number n (user.email usr)) (vouchers w) = remove1 ex (vouchers w)"
    using ex by (simp add: findOne_def find_delete_first)
  show ?thesis
    using au ex dl rs g d v1 v2 by (simp add: delete_voucher_def Let_def)
qed

lemma edit_voucher_row_missing:
  assumes au: "authenticateGoogle req w = (Inr (usr, auth), w1)"
    and f: "filter_opt (body req) = Some f" "f \<in> set companies"
    and ex: "findOne (by_id vid (user.email usr)) (vouchers w) = Some ex"
    and dl: "delete_old_pdf (pdfFileId ex) auth w1 = (Inr (), w2)"
    and dc: "drive_files_create (f, voucherNo ex) (folderId ex)
               (render (body req) (voucherNo ex)) auth w2 = (Inr (fileId, link), w3)"
    and rm: "row_missing (spreadsheetId ex) f auth (voucherNo ex) w"
  shows "edit_voucher vid req w = (Inl RowNotFound, w3) \<and> vouchers w3 = vouchers w \<and>
         spreadsheets w3 = spreadsheets w"
proof -
  have v1: "vouchers w1 = vouchers w" "spreadsheets w1 = spreadsheets w"
    using authenticateGoogle_frame [OF au] by simp_all
  have v2: "vouchers w2 = vouchers w1" "spreadsheets w2 = spreadsheets w1"
    using delete_old_pdf_frame [OF dl] by simp_all
  have v3: "vouchers w3 = vouchers w2" "spreadsheets w3 = spreadsheets w2"
    using drive_files_create_Inr [OF dc] by auto
  have g: "values_get (spreadsheetId ex) f auth w3 = values_get (spreadsheetId ex) f auth w"
    using v1 v2 v3 by (intro values_get_cong) simp
  from rm obtain rs where rs: "values_get (spreadsheetId ex) f auth w = Inr rs"
    "row_index (voucherNo ex) rs = None"
    by (auto simp: row_missing_def split: sum.splits)
  have "edit_voucher vid req w = (Inl RowNotFound, w3)"
    using au f ex dl dc rs g v1 findOne_by_id [OF ex]
    by (simp add: edit_voucher_def edit_finish_def Let_def)
  then show ?thesis using v1 v2 v3 by simp
qed

text \<open>
  Claim C6. Let the caller be identified, and let the sheet hold no row whose first cell
  equals the number of the voucher. Then delete, once the document is deleted, skips the
  clearing, leaves the spreadsheets as they were and removes the voucher from the record
  store; edit, once the old document is deleted and the new one uploaded, fails with
  \<open>RowNotFound\<close> and the record store is as before.
\<close>

theorem row_missing_delete_proceeds_edit_aborts:
  assumes "authenticateGoogle req w = (Inr (usr, auth), w1)"
  shows
    "(findOne (by_number n (user.email usr)) (vouchers w) = Some ex \<and>
      delete_old_pdf (pdfFileId ex) auth w1 = (Inr (), w2) \<and>
      row_missing (spreadsheetId ex) (company ex) auth n w \<longrightarrow>
        delete_voucher n req w = (Inr Deleted, w2\<lparr>vouchers := remove1 ex (vouchers w)\<rparr>) \<and>
        spreadsheets w2 = spreadsheets w) \<and>
     (filter_opt (body req) = Some f \<and> f \<in> set companies \<and>
      findOne (by_id vid (user.email usr)) (vouchers w) = Some ex' \<and>
      delete_old_pdf (pdfFileId ex') auth w1 = (Inr (), w3) \<and>
      drive_files_create (f, voucherNo ex') (folderId ex')
         (render (body req) (voucherNo ex')) auth w3 = (Inr (fileId, link), w4) \<and>
      row_missing (spreadsheetId ex') f auth (voucherNo ex') w \<longrightarrow>
        edit_voucher vid req w = (Inl RowNotFound, w4) \<and> vouchers w4 = vouchers w \<and>
        spreadsheets w4 = spreadsheets w)"
proof (intro conjI impI)
  assume h: "findOne (by_number n (user.email usr)) (vouchers w) = Some ex \<and>
      delete_old_pdf (pdfFileId ex) auth w1 = (Inr (), w2) \<and>
      row_missing (spreadsheetId ex) (company ex) auth n w"
  then show "delete_voucher n req w = (Inr Deleted, w2\<lparr>vouchers := remove1 ex (vouchers w)\<rparr>)"
    using delete_voucher_row_missing [OF assms] by blast
  from h show "spreadsheets w2 = spreadsheets w"
    using delete_old_pdf_frame [of "pdfFileId ex" auth w1 "Inr ()" w2]
      authenticateGoogle_frame [OF assms] by simp
next
  assume h: "filter_opt (body req) = Some f \<and> f \<in> set companies \<and>
      findOne (by_id vid (user.email usr)) (vouchers w) = Some ex' \<and>
      delete_old_pdf (pdfFileId ex') auth w1 = (Inr (), w3) \<and>
      drive_files_create (f, voucherNo ex') (folderId ex')
         (render (body req) (voucherNo ex')) auth w3 = (Inr (fileId, link), w4) \<and>
      row_missing (spreadsheetId ex') f auth (voucherNo ex') w"
  then have r: "edit_voucher vid req w = (Inl RowNotFound, w4) \<and> vouchers w4 = vouchers w \<and>
         spreadsheets w4 = spreadsheets w"
    using edit_voucher_row_missing [OF assms] by blast
  from r show "edit_voucher vid req w = (Inl RowNotFound, w4)" by simp
  from r show "vouchers w4 = vouchers w" by simp
  from r show "spreadsheets w4 = spreadsheets w" by simp
qed

theorem row_missing_delete_proceeds_edit_aborts_witness:
  "fst (delete_voucher 1 (ex_request ''s4'' ''ta'' ex_form) ex_desync) = Inr Deleted \<and>
   vouchers (snd (delete_voucher 1 (ex_request ''s4'' ''ta'' ex_form) ex_desync)) = [] \<and>
   fst (edit_voucher (ObjectId 0) (ex_request ''s4'' ''ta'' ex_form) ex_desync) = Inl RowNotFound \<and>
   vouchers (snd (edit_voucher (ObjectId 0) (ex_request ''s4'' ''ta'' ex_form) ex_desync))
     = vouchers ex_desync"
proof -
  let ?rq = "ex_request ''s4'' ''ta'' ex_form"
  let ?w1 = "snd (authenticateGoogle ?rq ex_desync)"
  let ?ex = "hd (vouchers ex_desync)"
  let ?w2 = "snd (delete_old_pdf (pdfFileId ?ex) (Some ''ta'') ?w1)"
  let ?w3 = "snd (drive_files_create (''Contentstack'', voucherNo ?ex) (folderId ?ex)
                 (render (body ?rq) (voucherNo ?ex)) (Some ''ta'') ?w2)"
  have "fst (authenticateGoogle ?rq ex_desync) = Inr (ex_alice, Some ''ta'')"
    by code_simp
  then have a: "authenticateGoogle ?rq ex_desync = (Inr (ex_alice, Some ''ta''), ?w1)"
    by (simp add: prod_eq_iff)
  have f1: "findOne (by_number 1 (user.email ex_alice)) (vouchers ex_desync) = Some ?ex"
    by code_simp
  have f2: "findOne (by_id (ObjectId 0) (user.email ex_alice)) (vouchers ex_desync) = Some ?ex"
    by code_simp
  have "fst (delete_old_pdf (pdfFileId ?ex) (Some ''ta'') ?w1) = Inr ()"
    by code_simp
  then have d: "delete_old_pdf (pdfFileId ?ex) (Some ''ta'') ?w1 = (Inr (), ?w2)"
    by (simp add: prod_eq_iff)
  have "fst (drive_files_create (''Contentstack'', voucherNo ?ex) (folderId ?ex)
                 (render (body ?rq) (voucherNo ?ex)) (Some ''ta'') ?w2)
        = Inr (''g000'', ''https://drive.google.com/file/d/g000/view'')"
    by code_simp
  then have c: "drive_files_create (''Contentstack'', voucherNo ?ex) (folderId ?ex)
                 (render (body ?rq) (voucherNo ?ex)) (Some ''ta'') ?w2
        = (Inr (''g000'', ''https://drive.google.com/file/d/g000/view''), ?w3)"
    by (simp add: prod_eq_iff)
  have m1: "row_missing (spreadsheetId ?ex) (company ?ex) (Some ''ta'') 1 ex_desync"
    by code_simp
  have m2: "row_missing (spreadsheetId ?ex) ''Contentstack'' (Some ''ta'') (voucherNo ?ex) ex_desync"
    by code_simp
  have b: "filter_opt (body ?rq) = Some ''Contentstack''" "''Contentstack'' \<in> set companies"
    by code_simp+
  have e: "remove1 ?ex (vouchers ex_desync) = []"
    by code_simp
  from row_missing_delete_proceeds_edit_aborts [OF a, of 1 ?ex ?w2 "''Contentstack''" "ObjectId 0" ?ex ?w2
      "''g000''" "''https://drive.google.com/file/d/g000/view''" ?w3]
    f1 f2 d c m1 m2 b
  have "delete_voucher 1 ?rq ex_desync
          = (Inr Deleted, ?w2\<lparr>vouchers := remove1 ?ex (vouchers ex_desync)\<rparr>)"
    and "edit_voucher (ObjectId 0) ?rq ex_desync = (Inl RowNotFound, ?w3)"
    and "vouchers ?w3 = vouchers ex_desync"
    by blast+
  then show ?thesis using e by simp
qed

section \<open>A successful edit\<close>

lemma values_update_Inr:
  assumes "values_update sid t k vals auth w = (Inr u, w1)"
  shows "\<exists>i sh. sheet_of sid t auth w = Some (i, sh) \<and>
         w1 = w\<lparr>spreadsheets :=
                  AList.update i (sh\<lparr>rows := (rows sh)[k - 1 := vals]\<rparr>) (spreadsheets w)\<rparr>"
  using assms by (auto simp: values_update_def split: option.splits)

lemma values_clear_Inr:
  assumes "values_clear sid t k auth w = (Inr u, w1)"
  shows "\<exists>i sh. sheet_of sid t auth w = Some (i, sh) \<and>
         w1 = w\<lparr>spreadsheets :=
                  AList.update i (sh\<lparr>rows := (rows sh)[k - 1 := []]\<rparr>) (spreadsheets w)\<rparr>"
  using assms by (auto simp: values_clear_def split: option.splits)

lemma edit_finish_Inr:
  assumes "edit_finish usr auth vid d f ex w = (Inr resp, w')"
  shows "\<exists>w1 fileId link w2 rs rowIndex w3.
      delete_old_pdf (pdfFileId ex) auth w = (Inr (), w1) \<and>
      drive_files_create (f, voucherNo ex) (folderId ex) (render d (voucherNo ex)) auth w1
        = (Inr (fileId, link), w2) \<and>
      values_get (spreadsheetId ex) f auth w2 = Inr rs \<and>
      row_index (voucherNo ex) rs = Some rowIndex \<and>
      values_update (spreadsheetId ex) f (rowIndex + 2) (row_values d (voucherNo ex) link) auth w2
        = (Inr (), w3) \<and>
      w' = w3\<lparr>vouchers := update_first (by_id vid (user.email usr))
                 (edit_update d link fileId) (vouchers w3)\<rparr> \<and>
      resp = Updated (sheetURL_of (spreadsheetId ex)) fileId"
  using assms
  by (auto simp: edit_finish_def Let_def split: prod.splits sum.splits option.splits)

lemma edit_voucher_Inr:
  assumes "edit_voucher vid req w = (Inr resp, w')"
  shows "\<exists>f usr auth w1 ex.
      filter_opt (body req) = Some f \<and> f \<in> set companies \<and>
      authenticateGoogle req w = (Inr (usr, auth), w1) \<and>
      findOne (by_id vid (user.email usr)) (vouchers w1) = Some ex \<and>
      edit_finish usr auth vid (body req) f ex w1 = (Inr resp, w')"
  using assms
  by (auto simp: edit_voucher_def Let_def
      split: option.splits prod.splits sum.splits if_splits record_id.splits)

lemma kept_edit_update: "kept (edit_update d l i v) = kept v"
  by (simp add: kept_def edit_update_def)

lemma map_update_first:
  "(\<And>x. g (f x) = g x) \<Longrightarrow> map g (update_first q f xs) = map g xs"
  by (induction xs) auto

lemma render_number: "map_of (render d n) ''Voucher No:'' = Some (JNum n)"
  by (simp add: render_def)

text \<open>
  Claim C9. After a successful edit the record store is the one before it with the
  update document of lines 405-418 applied to the first voucher of that id and owner:
  the form's fields, the new link and the new document id. The id, owner, company,
  number, spreadsheet id and folder id of every voucher are as before, whatever
  category the request names. The document uploaded is named and numbered after the
  stored voucher and lies in its folder.
\<close>

theorem edit_voucher_keeps_identity:
  assumes "edit_voucher vid req w = (Inr resp, w')"
  shows "\<exists>usr auth w1 ex f fileId.
    authenticateGoogle req w = (Inr (usr, auth), w1) \<and>
    filter_opt (body req) = Some f \<and>
    findOne (by_id vid (user.email usr)) (vouchers w) = Some ex \<and>
    vouchers w' = update_first (by_id vid (user.email usr))
       (edit_update (body req) (webViewLink fileId) fileId) (vouchers w) \<and>
    map kept (vouchers w') = map kept (vouchers w) \<and>
    map_of (files w') fileId =
       Some \<lparr>file_name = (f, voucherNo ex), parent = folderId ex,
             content = render (body req) (voucherNo ex)\<rparr> \<and>
    map_of (render (body req) (voucherNo ex)) ''Voucher No:'' = Some (JNum (voucherNo ex)) \<and>
    resp = Updated (sheetURL_of (spreadsheetId ex)) fileId"
proof -
  from edit_voucher_Inr [OF assms] obtain f usr auth w1 ex where
    f: "filter_opt (body req) = Some f" and
    au: "authenticateGoogle req w = (Inr (usr, auth), w1)" and
    ex: "findOne (by_id vid (user.email usr)) (vouchers w1) = Some ex" and
    fin: "edit_finish usr auth vid (body req) f ex w1 = (Inr resp, w')"
    by blast
  from edit_finish_Inr [OF fin] obtain w2 fileId link w3 rs rowIndex w4 where
    dl: "delete_old_pdf (pdfFileId ex) auth w1 = (Inr (), w2)" and
    dc: "drive_files_create (f, voucherNo ex) (folderId ex) (render (body req) (voucherNo ex))
           auth w2 = (Inr (fileId, link), w3)" and
    vu: "values_update (spreadsheetId ex) f (rowIndex + 2)
           (row_values (body req) (voucherNo ex) link) auth w3 = (Inr (), w4)" and
    w': "w' = w4\<lparr>vouchers := update_first (by_id vid (user.email usr))
                 (edit_update (body req) link fileId) (vouchers w4)\<rparr>" and
    resp: "resp = Updated (sheetURL_of (spreadsheetId ex)) fileId"
    by blast
  have v1: "vouchers w1 = vouchers w" using authenticateGoogle_frame [OF au] by simp
  have v2: "vouchers w2 = vouchers w1" using delete_old_pdf_frame [OF dl] by simp
  from drive_files_create_Inr [OF dc] have
    l: "link = webViewLink fileId" and v3: "vouchers w3 = vouchers w2" and
    f3: "files w3 = AList.update fileId
           \<lparr>file_name = (f, voucherNo ex), parent = folderId ex,
             content = render (body req) (voucherNo ex)\<rparr> (files w2)"
    by auto
  from values_update_Inr [OF vu] have v4: "vouchers w4 = vouchers w3" "files w4 = files w3"
    by auto
  have vs: "vouchers w' = update_first (by_id vid (user.email usr))
       (edit_update (body req) (webViewLink fileId) fileId) (vouchers w)"
    using w' l v1 v2 v3 v4 by simp
  have k: "map kept (vouchers w') = map kept (vouchers w)"
    unfolding vs by (rule map_update_first) (rule kept_edit_update)
  have fl: "map_of (files w') fileId =
       Some \<lparr>file_name = (f, voucherNo ex), parent = folderId ex,
             content = render (body req) (voucherNo ex)\<rparr>"
    using w' v4 f3 by (simp add: update_conv')
  show ?thesis
    using au f ex v1 vs k fl resp render_number by auto
qed

theorem edit_voucher_keeps_identity_witness:
  "fst (edit_voucher (ObjectId 0) (ex_request ''s5'' ''ta'' ex_form_edit) ex_renamed)
     = Inr (Updated ''https://docs.google.com/spreadsheets/d/g/edit'' ''g000'') \<and>
   filter_opt (body (ex_request ''s5'' ''ta'' ex_form_edit)) = Some ''Surfboard'' \<and>
   map company (vouchers ex_renamed) = [''Contentstack''] \<and>
   map kept (vouchers (snd (edit_voucher (ObjectId 0) (ex_request ''s5'' ''ta'' ex_form_edit) ex_renamed)))
     = map kept (vouchers ex_renamed) \<and>
   map amount (vouchers (snd (edit_voucher (ObjectId 0) (ex_request ''s5'' ''ta'' ex_form_edit) ex_renamed)))
     = [Some ''750'']"
proof -
  let ?rq = "ex_request ''s5'' ''ta'' ex_form_edit"
  have r: "fst (edit_voucher (ObjectId 0) ?rq ex_renamed)
     = Inr (Updated ''https://docs.google.com/spreadsheets/d/g/edit'' ''g000'')"
    by code_simp
  then have "edit_voucher (ObjectId 0) ?rq ex_renamed
     = (Inr (Updated ''https://docs.google.com/spreadsheets/d/g/edit'' ''g000''),
        snd (edit_voucher (ObjectId 0) ?rq ex_renamed))"
    by (simp add: prod_eq_iff)
  from edit_voucher_keeps_identity [OF this]
  have k: "map kept (vouchers (snd (edit_voucher (ObjectId 0) ?rq ex_renamed))) = map kept (vouchers ex_renamed)"
    by blast
  have f: "filter_opt (body ?rq) = Some ''Surfboard''"
    by code_simp
  have c: "map company (vouchers ex_renamed) = [''Contentstack'']"
    by code_simp
  have a: "map amount (vouchers (snd (edit_voucher (ObjectId 0) ?rq ex_renamed))) = [Some ''750'']"
    by code_simp
  from r f c k a show ?thesis by simp
qed

section \<open>A successful delete\<close>

lemma delete_voucher_Inr:
  assumes "delete_voucher n req w = (Inr resp, w')"
  shows "\<exists>usr auth w1 ex w2 rs w3.
      authenticateGoogle req w = (Inr (usr, auth), w1) \<and>
      findOne (by_number n (user.email usr)) (vouchers w1) = Some ex \<and>
      delete_old_pdf (pdfFileId ex) auth w1 = (Inr (), w2) \<and>
      values_get (spreadsheetId ex) (company ex) auth w2 = Inr rs \<and>
      (case row_index n rs of
         None \<Rightarrow> w3 = w2
       | Some rowIndex \<Rightarrow>
          values_clear (spreadsheetId ex) (company ex) (rowIndex + 2) auth w2 = (Inr (), w3)) \<and>
      w' = w3\<lparr>vouchers := delete_first (by_number n (user.email usr)) (vouchers w3)\<rparr>"
  using assms
  by (auto simp: delete_voucher_def Let_def split: prod.splits sum.splits option.splits)

lemma delete_old_pdf_files:
  assumes "delete_old_pdf i a w = (Inr u, w')"
  shows "files w' =
    (case i of None \<Rightarrow> files w | Some k \<Rightarrow> if k = [] then files w else AList.delete k (files w))"
  using assms
  by (auto simp: delete_old_pdf_def drive_files_delete_def split: option.splits if_splits)

lemma sheet_of_cong:
  "spreadsheets w' = spreadsheets w \<Longrightarrow> sheet_of sid t a w' = sheet_of sid t a w"
  by (simp add: sheet_of_def split: option.splits)

lemma values_get_Inr:
  "values_get sid t a w = Inr rs \<Longrightarrow> \<exists>i sh. sheet_of sid t a w = Some (i, sh) \<and> rs = tl (rows sh)"
  by (auto simp: values_get_def split: option.splits)

lemma find_filter_remove1:
  "find q xs = Some x \<Longrightarrow> filter q xs = x # filter q (remove1 x xs)"
  by (induction xs) (auto simp: find_Some_iff split: if_splits)

text \<open>
  Claim C10. A successful delete looks the voucher up by number and owner alone: it
  removes from the record store the first voucher of that number and owner, of whatever
  company, and no other. When the owner holds two vouchers of the number, the first in
  the store's order goes and the second stays. The document deleted is that voucher's,
  and the row cleared is the one of the number in that voucher's spreadsheet, on the
  sheet named after that voucher's company.
\<close>

theorem delete_voucher_by_number_only:
  assumes "delete_voucher n req w = (Inr resp, w')"
  shows "\<exists>usr auth w1 ex.
    authenticateGoogle req w = (Inr (usr, auth), w1) \<and>
    findOne (by_number n (user.email usr)) (vouchers w) = Some ex \<and>
    vouchers w' = remove1 ex (vouchers w) \<and>
    (\<forall>v1 v2. filter (by_number n (user.email usr)) (vouchers w) = [v1, v2] \<longrightarrow>
       ex = v1 \<and> filter (by_number n (user.email usr)) (vouchers w') = [v2]) \<and>
    files w' =
      (case pdfFileId ex of
         None \<Rightarrow> files w
       | Some i \<Rightarrow> if i = [] then files w else AList.delete i (files w)) \<and>
    (\<exists>i sh. sheet_of (spreadsheetId ex) (company ex) auth w = Some (i, sh) \<and>
       spreadsheets w' =
         (case row_index n (tl (rows sh)) of
            None \<Rightarrow> spreadsheets w
          | Some k \<Rightarrow> AList.update i (sh\<lparr>rows := (rows sh)[Suc k := []]\<rparr>) (spreadsheets w)))"
proof -
  from delete_voucher_Inr [OF assms] obtain usr auth w1 ex w2 rs w3 where
    au: "authenticateGoogle req w = (Inr (usr, auth), w1)" and
    ex: "findOne (by_number n (user.email usr)) (vouchers w1) = Some ex" and
    dl: "delete_old_pdf (pdfFileId ex) auth w1 = (Inr (), w2)" and
    vg: "values_get (spreadsheetId ex) (company ex) auth w2 = Inr rs" and
    cl: "case row_index n rs of
         None \<Rightarrow> w3 = w2
       | Some rowIndex \<Rightarrow>
          values_clear (spreadsheetId ex) (company ex) (rowIndex + 2) auth w2 = (Inr (), w3)" and
    w': "w' = w3\<lparr>vouchers := delete_first (by_number n (user.email usr)) (vouchers w3)\<rparr>"
    by blast
  let ?q = "by_number n (user.email usr)"
  have f1: "vouchers w1 = vouchers w" "files w1 = files w" "spreadsheets w1 = spreadsheets w"
    using authenticateGoogle_frame [OF au] by simp_all
  have f2: "vouchers w2 = vouchers w1" "spreadsheets w2 = spreadsheets w1"
    using delete_old_pdf_frame [OF dl] by simp_all
  have fl2: "files w2 =
      (case pdfFileId ex of
         None \<Rightarrow> files w
       | Some i \<Rightarrow> if i = [] then files w else AList.delete i (files w))"
    using delete_old_pdf_files [OF dl] f1 by (simp split: option.splits)
  from values_get_Inr [OF vg] obtain i sh where
    sh2: "sheet_of (spreadsheetId ex) (company ex) auth w2 = Some (i, sh)" and rs: "rs = tl (rows sh)"
    by blast
  have sh: "sheet_of (spreadsheetId ex) (company ex) auth w = Some (i, sh)"
    using sh2 sheet_of_cong [of w2 w] f1 f2 by simp
  have f3: "vouchers w3 = vouchers w2 \<and> files w3 = files w2 \<and>
      spreadsheets w3 =
        (case row_index n (tl (rows sh)) of
            None \<Rightarrow> spreadsheets w
          | Some k \<Rightarrow> AList.update i (sh\<lparr>rows := (rows sh)[Suc k := []]\<rparr>) (spreadsheets w))"
  proof (cases "row_index n rs")
    case None
    with cl rs f1 f2 show ?thesis by simp
  next
    case (Some k)
    with cl have "values_clear (spreadsheetId ex) (company ex) (k + 2) auth w2 = (Inr (), w3)"
      by simp
    from values_clear_Inr [OF this] sh2 Some rs f1 f2 show ?thesis by auto
  qed
  have fx: "find ?q (vouchers w) = Some ex" using ex f1 by (simp add: findOne_def)
  have vs: "vouchers w' = remove1 ex (vouchers w)"
    using w' f3 f2 f1 fx by (simp add: find_delete_first)
  have two: "\<forall>v1 v2. filter ?q (vouchers w) = [v1, v2] \<longrightarrow>
       ex = v1 \<and> filter ?q (vouchers w') = [v2]"
    using find_filter_remove1 [OF fx] vs by simp
  have "findOne ?q (vouchers w) = Some ex" using fx by (simp add: findOne_def)
  moreover have "files w' =
      (case pdfFileId ex of
         None \<Rightarrow> files w
       | Some i \<Rightarrow> if i = [] then files w else AList.delete i (files w))"
    using w' f3 fl2 by simp
  moreover have "spreadsheets w' =
         (case row_index n (tl (rows sh)) of
            None \<Rightarrow> spreadsheets w
          | Some k \<Rightarrow> AList.update i (sh\<lparr>rows := (rows sh)[Suc k := []]\<rparr>) (spreadsheets w))"
    using w' f3 by simp
  ultimately show ?thesis using au vs two sh by blast
qed

theorem delete_voucher_by_number_only_witness:
  "map company (filter (by_number 1 ''alice@example.org'') (vouchers ex_two))
     = [''Contentstack'', ''Surfboard''] \<and>
   fst (delete_voucher 1 (ex_request ''s7'' ''ta'' ex_form) ex_two) = Inr Deleted \<and>
   vouchers (snd (delete_voucher 1 (ex_request ''s7'' ''ta'' ex_form) ex_two))
     = remove1 (hd (vouchers ex_two)) (vouchers ex_two) \<and>
   map company (vouchers (snd (delete_voucher 1 (ex_request ''s7'' ''ta'' ex_form) ex_two)))
     = [''Surfboard'']"
proof -
  let ?rq = "ex_request ''s7'' ''ta'' ex_form"
  let ?w' = "snd (delete_voucher 1 ?rq ex_two)"
  have r: "fst (delete_voucher 1 ?rq ex_two) = Inr Deleted"
    by code_simp
  then have d: "delete_voucher 1 ?rq ex_two = (Inr Deleted, ?w')"
    by (simp add: prod_eq_iff)
  have a: "fst (authenticateGoogle ?rq ex_two) = Inr (ex_alice, Some ''ta'')"
    by code_simp
  have f: "findOne (by_number 1 (user.email ex_alice)) (vouchers ex_two) = Some (hd (vouchers ex_two))"
    by code_simp
  from delete_voucher_by_number_only [OF d] obtain usr auth w1 ex where
    "authenticateGoogle ?rq ex_two = (Inr (usr, auth), w1)"
    "findOne (by_number 1 (user.email usr)) (vouchers ex_two) = Some ex"
    "vouchers ?w' = remove1 ex (vouchers ex_two)"
    by blast
  with a f have v: "vouchers ?w' = remove1 (hd (vouchers ex_two)) (vouchers ex_two)"
    by simp
  have c: "map company (filter (by_number 1 ''alice@example.org'') (vouchers ex_two))
     = [''Contentstack'', ''Surfboard'']"
    by code_simp
  have c': "map company (remove1 (hd (vouchers ex_two)) (vouchers ex_two)) = [''Surfboard'']"
    by code_simp
  from r v c c' show ?thesis by simp
qed

section \<open>Workspaces\<close>

lemma fresh_id_inj: "(fresh_id a = fresh_id b) = (a = b)"
proof
  assume "fresh_id a = fresh_id b"
  then have "length (fresh_id a) = length (fresh_id b)" by simp
  then show "a = b" by (simp add: fresh_id_def)
qed simp

lemma issued_Some: "issued k (Some s) = (\<exists>j<k. s = fresh_id j)"
  by (auto simp: issued_def)

lemma issued_None: "issued k None"
  by (simp add: issued_def)

lemma issued_mono: "issued k i \<Longrightarrow> k \<le> k' \<Longrightarrow> issued k' i"
proof (cases i)
  case None
  then show ?thesis by (simp add: issued_None)
next
  case (Some s)
  assume "issued k i" "k \<le> k'"
  with Some obtain j where "j < k" "s = fresh_id j" by (auto simp: issued_Some)
  with \<open>k \<le> k'\<close> have "j < k' \<and> s = fresh_id j" by simp
  with Some show ?thesis by (auto simp: issued_Some)
qed

lemma not_issued_fresh: "k \<le> j \<Longrightarrow> \<not> issued k (Some (fresh_id j))"
  by (auto simp: issued_Some fresh_id_inj)

lemma getUserResources_reuse:
  "findOne (of_pair e c) (vouchers w) = Some ex \<Longrightarrow>
   getUserResources e c auth w = (Inr (spreadsheetId ex, folderId ex, voucherNumber_of e c w), w)"
  by (simp add: getUserResources_def)

lemma getUserResources_create:
  assumes "findOne (of_pair e c) (vouchers w) = None"
    and "getUserResources e c auth w = (Inr (sid, fid, n), w')"
  shows "sid = Some (fresh_id (next_id w)) \<and> fid = Some (fresh_id (Suc (next_id w))) \<and>
    spreadsheets w' = AList.update (fresh_id (next_id w))
        \<lparr>title = c, rows = [map JStr headerValues]\<rparr> (spreadsheets w) \<and>
    folders w' = AList.update (fresh_id (Suc (next_id w))) (c @ '' Vouchers'') (folders w) \<and>
    next_id w' = Suc (Suc (next_id w))"
  using assms
  by (auto simp: getUserResources_def createSpreadsheet_def createDriveFolder_def Let_def
      split: option.splits)

lemma sheet_of_Some:
  "sheet_of sid t a w = Some (i, sh) \<Longrightarrow> sid = Some i \<and> map_of (spreadsheets w) i = Some sh \<and> title sh = t"
  by (auto simp: sheet_of_def split: option.splits if_splits)

lemma update_present_keys:
  "map_of al k = Some v \<Longrightarrow> map fst (AList.update k v' al) = map fst al"
  by (auto simp: update_keys dest: map_of_SomeD intro: rev_image_eqI)

lemma submit_finish_frame:
  assumes "submit_finish usr auth d f sid fid n w = (Inr resp, w')"
  shows "folders w' = folders w \<and> map fst (spreadsheets w') = map fst (spreadsheets w) \<and>
         next_id w' = Suc (next_id w)"
proof -
  from submit_finish_Inr [OF assms] obtain fileId link w1 w2 where
    dc: "drive_files_create (f, n) fid (render d n) auth w = (Inr (fileId, link), w1)" and
    va: "values_append sid f (row_values d n link) auth w1 = (Inr (), w2)" and
    w': "w' = w2\<lparr>vouchers := vouchers w2 @
                  [(new_voucher usr d f n link sid fid fileId)\<lparr>oid := next_oid w2\<rparr>],
              next_oid := Suc (next_oid w2)\<rparr>"
    by blast
  from drive_files_create_Inr [OF dc] have
    1: "folders w1 = folders w" "spreadsheets w1 = spreadsheets w" "next_id w1 = Suc (next_id w)"
    by auto
  from values_append_Inr [OF va] obtain i sh where
    s: "sheet_of sid f auth w1 = Some (i, sh)" and
    w2: "w2 = w1\<lparr>spreadsheets :=
                  AList.update i (sh\<lparr>rows := rows sh @ [row_values d n link]\<rparr>) (spreadsheets w1)\<rparr>"
    by blast
  from sheet_of_Some [OF s] have "map_of (spreadsheets w1) i = Some sh" by simp
  then have "map fst (spreadsheets w2) = map fst (spreadsheets w1)"
    unfolding w2 by (simp add: update_present_keys)
  with 1 w2 w' show ?thesis by simp
qed

lemma ids_issued_iff:
  "ids_issued w =
    ((\<forall>v\<in>set (vouchers w). issued (next_id w) (spreadsheetId v) \<and> issued (next_id w) (folderId v)) \<and>
     (\<forall>i\<in>fst ` set (spreadsheets w). issued (next_id w) (Some i)) \<and>
     (\<forall>i\<in>fst ` set (folders w). issued (next_id w) (Some i)))"
  by (auto simp: ids_issued_def list_all_iff)

lemma new_voucher_sel:
  "spreadsheetId ((new_voucher usr d f n link sid fid fileId)\<lparr>oid := k\<rparr>) = sid"
  "folderId ((new_voucher usr d f n link sid fid fileId)\<lparr>oid := k\<rparr>) = fid"
  "voucher.email ((new_voucher usr d f n link sid fid fileId)\<lparr>oid := k\<rparr>) = user.email usr"
  "company ((new_voucher usr d f n link sid fid fileId)\<lparr>oid := k\<rparr>) = f"
  "voucherNo ((new_voucher usr d f n link sid fid fileId)\<lparr>oid := k\<rparr>) = n"
  "pdfLink ((new_voucher usr d f n link sid fid fileId)\<lparr>oid := k\<rparr>) = Some link"
  by (simp_all add: new_voucher_def)

lemma submit_workspace:
  assumes "submit req w = (Inr resp, w')"
  shows "\<exists>usr auth w1 c sid fid w2 v.
     authenticateGoogle req w = (Inr (usr, auth), w1) \<and> filter_opt (body req) = Some c \<and>
     getUserResources (user.email usr) c auth w1
        = (Inr (sid, fid, voucherNumber_of (user.email usr) c w), w2) \<and>
     vouchers w' = vouchers w @ [v] \<and> of_pair (user.email usr) c v \<and>
     spreadsheetId v = sid \<and> folderId v = fid \<and>
     folders w' = folders w2 \<and> map fst (spreadsheets w') = map fst (spreadsheets w2) \<and>
     next_id w' = Suc (next_id w2)"
proof -
  from submit_Inr [OF assms] obtain f usr auth w1 sid fid vn w2 where
    f: "filter_opt (body req) = Some f" and
    au: "authenticateGoogle req w = (Inr (usr, auth), w1)" and
    gr: "getUserResources (user.email usr) f auth w1 = (Inr (sid, fid, vn), w2)" and
    fin: "submit_finish usr auth (body req) f sid fid
          (chosen_number (body_voucherNo (body req)) vn) w2 = (Inr resp, w')"
    by blast
  let ?n = "chosen_number (body_voucherNo (body req)) vn"
  from submit_finish_Inr [OF fin] obtain fileId link w3 w4 where
    dc: "drive_files_create (f, ?n) fid (render (body req) ?n) auth w2 = (Inr (fileId, link), w3)" and
    va: "values_append sid f (row_values (body req) ?n link) auth w3 = (Inr (), w4)" and
    w': "w' = w4\<lparr>vouchers := vouchers w4 @
                  [(new_voucher usr (body req) f ?n link sid fid fileId)\<lparr>oid := next_oid w4\<rparr>],
              next_oid := Suc (next_oid w4)\<rparr>"
    by blast
  let ?v = "(new_voucher usr (body req) f ?n link sid fid fileId)\<lparr>oid := next_oid w4\<rparr>"
  have v1: "vouchers w1 = vouchers w" using authenticateGoogle_frame [OF au] by simp
  have v2: "vouchers w2 = vouchers w1" using getUserResources_frame [OF gr] by simp
  have v3: "vouchers w3 = vouchers w2" using drive_files_create_Inr [OF dc] by auto
  have v4: "vouchers w4 = vouchers w3" using values_append_Inr [OF va] by auto
  have vn: "vn = voucherNumber_of (user.email usr) f w"
    using getUserResources_number [OF gr] v1 by (simp add: voucherNumber_of_def)
  have "vouchers w' = vouchers w @ [?v]" using w' v1 v2 v3 v4 by simp
  moreover have "of_pair (user.email usr) f ?v \<and> spreadsheetId ?v = sid \<and> folderId ?v = fid"
    by (simp add: new_voucher_sel of_pair_def)
  ultimately show ?thesis
    using au f gr vn submit_finish_frame [OF fin] by blast
qed

text \<open>
  Claim C7. A successful submit stores a voucher of the caller and the company. When the
  store already holds a voucher of the pair, the new one carries the spreadsheet and
  folder ids of the first such voucher, and no spreadsheet and no folder is created (the
  submit uploads its document and appends its row to the sheet). When it holds none,
  the new voucher carries the ids of a spreadsheet and a folder created by this submit;
  in a world whose ids are issued these did not exist before and differ from the
  spreadsheet and folder ids of every voucher already stored, those of the owner's other
  companies among them. A successful submit keeps the ids of the world issued.
\<close>

theorem workspace_reused_or_provisioned:
  assumes "submit req w = (Inr resp, w')"
  shows "\<exists>usr auth w1 c v.
     authenticateGoogle req w = (Inr (usr, auth), w1) \<and> filter_opt (body req) = Some c \<and>
     vouchers w' = vouchers w @ [v] \<and> of_pair (user.email usr) c v \<and>
     (case findOne (of_pair (user.email usr) c) (vouchers w) of
        Some ex \<Rightarrow>
          spreadsheetId v = spreadsheetId ex \<and> folderId v = folderId ex \<and>
          map fst (spreadsheets w') = map fst (spreadsheets w) \<and> folders w' = folders w
      | None \<Rightarrow>
          spreadsheetId v = Some (fresh_id (next_id w)) \<and>
          folderId v = Some (fresh_id (Suc (next_id w))) \<and>
          fresh_id (next_id w) \<in> fst ` set (spreadsheets w') \<and>
          fresh_id (Suc (next_id w)) \<in> fst ` set (folders w') \<and>
          (ids_issued w \<longrightarrow>
             fresh_id (next_id w) \<notin> fst ` set (spreadsheets w) \<and>
             fresh_id (Suc (next_id w)) \<notin> fst ` set (folders w) \<and>
             (\<forall>u\<in>set (vouchers w).
                spreadsheetId u \<noteq> spreadsheetId v \<and> folderId u \<noteq> folderId v))) \<and>
     (ids_issued w \<longrightarrow> ids_issued w')"
proof -
  from submit_workspace [OF assms] obtain usr auth w1 c sid fid w2 v where
    au: "authenticateGoogle req w = (Inr (usr, auth), w1)" and
    c: "filter_opt (body req) = Some c" and
    gr: "getUserResources (user.email usr) c auth w1
        = (Inr (sid, fid, voucherNumber_of (user.email usr) c w), w2)" and
    vs: "vouchers w' = vouchers w @ [v]" and
    pv: "of_pair (user.email usr) c v" and
    ids: "spreadsheetId v = sid" "folderId v = fid" and
    fr: "folders w' = folders w2" "map fst (spreadsheets w') = map fst (spreadsheets w2)"
      "next_id w' = Suc (next_id w2)"
    by blast
  let ?n = "next_id w"
  have f1: "vouchers w1 = vouchers w" "spreadsheets w1 = spreadsheets w" "folders w1 = folders w"
    "next_id w1 = ?n"
    using authenticateGoogle_frame [OF au] by simp_all
  have keys: "fst ` set (spreadsheets w') = fst ` set (spreadsheets w2)"
    using fr(2) by (metis set_map)
  show ?thesis
  proof (cases "findOne (of_pair (user.email usr) c) (vouchers w)")
    case (Some ex)
    with f1 have "findOne (of_pair (user.email usr) c) (vouchers w1) = Some ex" by simp
    from getUserResources_reuse [OF this, of auth] gr have
      r: "sid = spreadsheetId ex" "fid = folderId ex" "w2 = w1" by simp_all
    have exm: "ex \<in> set (vouchers w)"
      using Some by (auto simp: findOne_def find_Some_iff)
    have inv: "ids_issued w \<longrightarrow> ids_issued w'"
    proof
      assume i: "ids_issued w"
      have le: "?n \<le> next_id w'" using fr(3) r f1 by simp
      from i exm have "issued ?n (spreadsheetId ex) \<and> issued ?n (folderId ex)"
        by (simp add: ids_issued_iff)
      with i show "ids_issued w'"
        using vs ids r fr f1 keys le by (auto simp: ids_issued_iff intro: issued_mono)
    qed
    from Some au c vs pv ids r fr f1 inv show ?thesis by auto
  next
    case None
    with f1 have "findOne (of_pair (user.email usr) c) (vouchers w1) = None" by simp
    from getUserResources_create [OF this gr] f1 have
      r: "sid = Some (fresh_id ?n)" "fid = Some (fresh_id (Suc ?n))"
        "spreadsheets w2 = AList.update (fresh_id ?n)
            \<lparr>title = c, rows = [map JStr headerValues]\<rparr> (spreadsheets w)"
        "folders w2 = AList.update (fresh_id (Suc ?n)) (c @ '' Vouchers'') (folders w)"
        "next_id w2 = Suc (Suc ?n)"
      by simp_all
    have k2: "fst ` set (spreadsheets w') = insert (fresh_id ?n) (fst ` set (spreadsheets w))"
      "fst ` set (folders w') = insert (fresh_id (Suc ?n)) (fst ` set (folders w))"
      using keys r fr by (simp_all add: dom_update)
    have fresh: "ids_issued w \<longrightarrow>
             fresh_id ?n \<notin> fst ` set (spreadsheets w) \<and>
             fresh_id (Suc ?n) \<notin> fst ` set (folders w) \<and>
             (\<forall>u\<in>set (vouchers w).
                spreadsheetId u \<noteq> spreadsheetId v \<and> folderId u \<noteq> folderId v)"
      using ids r not_issued_fresh [of ?n ?n] not_issued_fresh [of ?n "Suc ?n"]
      by (auto simp: ids_issued_iff)
    have inv: "ids_issued w \<longrightarrow> ids_issued w'"
    proof
      assume i: "ids_issued w"
      have n': "next_id w' = Suc (Suc (Suc ?n))" using fr(3) r by simp
      have a: "issued (next_id w') (Some (fresh_id ?n))"
        "issued (next_id w') (Some (fresh_id (Suc ?n)))"
        unfolding n' issued_Some
        by (rule exI [of _ "next_id w"], simp, rule exI [of _ "Suc (next_id w)"], simp)
      have m: "\<And>x. issued ?n x \<Longrightarrow> issued (next_id w') x"
        using n' by (auto intro: issued_mono)
      from i show "ids_issued w'"
        unfolding ids_issued_iff k2 vs using a m ids r by auto
    qed
    from None au c vs pv ids r k2 fresh inv show ?thesis by auto
  qed
qed

lemma ex_submit2:
  "submit (ex_request ''s2'' ''ta'' ex_form) ex_world1
     = (Inr (Submitted ''https://docs.google.com/spreadsheets/d/g/edit'' ''g000''), ex_world2)"
proof -
  have "fst (submit (ex_request ''s2'' ''ta'' ex_form) ex_world1)
      = Inr (Submitted ''https://docs.google.com/spreadsheets/d/g/edit'' ''g000'')"
    by code_simp
  then show ?thesis by (simp add: ex_world2_def prod_eq_iff)
qed

lemma ex_submit_two:
  "submit (ex_request ''s6'' ''ta'' ex_form_surf) ex_world1
     = (Inr (Submitted ''https://docs.google.com/spreadsheets/d/g000/edit'' ''g00000''), ex_two)"
proof -
  have "fst (submit (ex_request ''s6'' ''ta'' ex_form_surf) ex_world1)
      = Inr (Submitted ''https://docs.google.com/spreadsheets/d/g000/edit'' ''g00000'')"
    by code_simp
  then show ?thesis by (simp add: ex_two_def prod_eq_iff)
qed

lemma ex_world1_issued: "ids_issued ex_world1"
  by code_simp

theorem workspace_reused_or_provisioned_witness:
  "ids_issued ex_world1 \<and>
   spreadsheetId (last (vouchers ex_world2)) = spreadsheetId (hd (vouchers ex_world1)) \<and>
   folderId (last (vouchers ex_world2)) = folderId (hd (vouchers ex_world1)) \<and>
   map fst (spreadsheets ex_world2) = map fst (spreadsheets ex_world1) \<and>
   folders ex_world2 = folders ex_world1 \<and>
   spreadsheetId (last (vouchers ex_two)) \<noteq> spreadsheetId (hd (vouchers ex_world1)) \<and>
   folderId (last (vouchers ex_two)) \<noteq> folderId (hd (vouchers ex_world1)) \<and>
   ids_issued ex_two"
proof -
  have h: "hd (vouchers ex_world1) \<in> set (vouchers ex_world1)"
    by code_simp
  have a2: "fst (authenticateGoogle (ex_request ''s2'' ''ta'' ex_form) ex_world1)
      = Inr (ex_alice, Some ''ta'')"
    by code_simp
  have a6: "fst (authenticateGoogle (ex_request ''s6'' ''ta'' ex_form_surf) ex_world1)
      = Inr (ex_alice, Some ''ta'')"
    by code_simp
  have c2: "filter_opt (body (ex_request ''s2'' ''ta'' ex_form)) = Some ''Contentstack''"
    by code_simp
  have c6: "filter_opt (body (ex_request ''s6'' ''ta'' ex_form_surf)) = Some ''Surfboard''"
    by code_simp
  have f2: "findOne (of_pair (user.email ex_alice) ''Contentstack'') (vouchers ex_world1)
      = Some (hd (vouchers ex_world1))"
    by code_simp
  have f6: "findOne (of_pair (user.email ex_alice) ''Surfboard'') (vouchers ex_world1) = None"
    by code_simp
  from workspace_reused_or_provisioned [OF ex_submit2] obtain usr auth w1 c v where
    "authenticateGoogle (ex_request ''s2'' ''ta'' ex_form) ex_world1 = (Inr (usr, auth), w1)"
    "filter_opt (body (ex_request ''s2'' ''ta'' ex_form)) = Some c"
    "vouchers ex_world2 = vouchers ex_world1 @ [v]"
    "case findOne (of_pair (user.email usr) c) (vouchers ex_world1) of
        Some ex \<Rightarrow>
          spreadsheetId v = spreadsheetId ex \<and> folderId v = folderId ex \<and>
          map fst (spreadsheets ex_world2) = map fst (spreadsheets ex_world1) \<and>
          folders ex_world2 = folders ex_world1
      | None \<Rightarrow> True"
    by (auto split: option.splits)
  with a2 c2 f2 have reuse:
    "spreadsheetId (last (vouchers ex_world2)) = spreadsheetId (hd (vouchers ex_world1)) \<and>
     folderId (last (vouchers ex_world2)) = folderId (hd (vouchers ex_world1)) \<and>
     map fst (spreadsheets ex_world2) = map fst (spreadsheets ex_world1) \<and>
     folders ex_world2 = folders ex_world1"
    by simp
  from workspace_reused_or_provisioned [OF ex_submit_two] obtain usr auth w1 c v where
    "authenticateGoogle (ex_request ''s6'' ''ta'' ex_form_surf) ex_world1 = (Inr (usr, auth), w1)"
    "filter_opt (body (ex_request ''s6'' ''ta'' ex_form_surf)) = Some c"
    "vouchers ex_two = vouchers ex_world1 @ [v]"
    "case findOne (of_pair (user.email usr) c) (vouchers ex_world1) of
        Some ex \<Rightarrow> True
      | None \<Rightarrow>
          (ids_issued ex_world1 \<longrightarrow>
             (\<forall>u\<in>set (vouchers ex_world1).
                spreadsheetId u \<noteq> spreadsheetId v \<and> folderId u \<noteq> folderId v))"
    "ids_issued ex_world1 \<longrightarrow> ids_issued ex_two"
    by (auto split: option.splits)
  with a6 c6 f6 h ex_world1_issued have distinct:
    "spreadsheetId (last (vouchers ex_two)) \<noteq> spreadsheetId (hd (vouchers ex_world1)) \<and>
     folderId (last (vouchers ex_two)) \<noteq> folderId (hd (vouchers ex_world1)) \<and>
     ids_issued ex_two"
    by auto
  from ex_world1_issued reuse distinct show ?thesis by simp
qed

section \<open>The handlers keep the ids of the world issued\<close>

lemma issued_fresh: "j < k \<Longrightarrow> issued k (Some (fresh_id j))"
  by (auto simp: issued_Some)

lemma ids_issued_next:
  assumes "ids_issued w" "next_id w \<le> k"
  shows "ids_issued (w\<lparr>next_id := k\<rparr>)"
  using assms by (auto simp: ids_issued_iff intro: issued_mono)

lemma ids_issued_sheets:
  assumes "ids_issued w" "issued (next_id w) (Some i)"
  shows "ids_issued (w\<lparr>spreadsheets := AList.update i sh (spreadsheets w)\<rparr>)"
  using assms by (simp add: ids_issued_iff dom_update)

lemma ids_issued_folders:
  assumes "ids_issued w" "issued (next_id w) (Some i)"
  shows "ids_issued (w\<lparr>folders := AList.update i nm (folders w)\<rparr>)"
  using assms by (simp add: ids_issued_iff dom_update)

lemma ids_issued_files: "ids_issued (w\<lparr>files := fs\<rparr>) = ids_issued w"
  by (simp add: ids_issued_iff)

lemma ids_issued_sessions: "ids_issued (w\<lparr>sessions := ss\<rparr>) = ids_issued w"
  by (simp add: ids_issued_iff)

lemma ids_issued_next_oid: "ids_issued (w\<lparr>next_oid := k\<rparr>) = ids_issued w"
  by (simp add: ids_issued_iff)

lemma ids_issued_vouchers:
  assumes "ids_issued w"
    "\<And>v. v \<in> set vs \<Longrightarrow> issued (next_id w) (spreadsheetId v) \<and> issued (next_id w) (folderId v)"
  shows "ids_issued (w\<lparr>vouchers := vs\<rparr>)"
  using assms by (simp add: ids_issued_iff)

lemma authenticateGoogle_issued:
  "authenticateGoogle req w = (r, w') \<Longrightarrow> ids_issued w \<Longrightarrow> ids_issued w'"
  by (auto simp: authenticateGoogle_def ids_issued_sessions split: option.splits)

lemma createSpreadsheet_issued:
  assumes "createSpreadsheet c a w = (r, w')" "ids_issued w"
  shows "ids_issued w'"
proof (cases a)
  case None
  with assms show ?thesis by (simp add: createSpreadsheet_def)
next
  case (Some t)
  let ?w = "w\<lparr>next_id := Suc (next_id w)\<rparr>"
  have "ids_issued ?w" using assms(2) by (simp add: ids_issued_next)
  then have "ids_issued (?w\<lparr>spreadsheets := AList.update (fresh_id (next_id w))
      \<lparr>title = c, rows = [map JStr headerValues]\<rparr> (spreadsheets ?w)\<rparr>)"
    by (rule ids_issued_sheets) (simp add: issued_fresh)
  moreover have "w' = ?w\<lparr>spreadsheets := AList.update (fresh_id (next_id w))
      \<lparr>title = c, rows = [map JStr headerValues]\<rparr> (spreadsheets ?w)\<rparr>"
    using assms(1) Some by (auto simp: createSpreadsheet_def Let_def)
  ultimately show ?thesis by simp
qed

lemma createDriveFolder_issued:
  assumes "createDriveFolder c a w = (r, w')" "ids_issued w"
  shows "ids_issued w'"
proof (cases a)
  case None
  with assms show ?thesis by (simp add: createDriveFolder_def)
next
  case (Some t)
  let ?w = "w\<lparr>next_id := Suc (next_id w)\<rparr>"
  have "ids_issued ?w" using assms(2) by (simp add: ids_issued_next)
  then have "ids_issued (?w\<lparr>folders := AList.update (fresh_id (next_id w))
      (c @ '' Vouchers'') (folders ?w)\<rparr>)"
    by (rule ids_issued_folders) (simp add: issued_fresh)
  moreover have "w' = ?w\<lparr>folders := AList.update (fresh_id (next_id w))
      (c @ '' Vouchers'') (folders ?w)\<rparr>"
    using assms(1) Some by (auto simp: createDriveFolder_def Let_def)
  ultimately show ?thesis by simp
qed

lemma getUserResources_issued:
  assumes "getUserResources e c a w = (r, w')" "ids_issued w"
  shows "ids_issued w'"
proof (cases "findOne (of_pair e c) (vouchers w)")
  case (Some ex)
  with assms show ?thesis by (simp add: getUserResources_def)
next
  case None
  obtain r1 w1 where c1: "createSpreadsheet c a w = (r1, w1)"
    by (cases "createSpreadsheet c a w")
  obtain r2 w2 where c2: "createDriveFolder c a w1 = (r2, w2)"
    by (cases "createDriveFolder c a w1")
  have i1: "ids_issued w1" using createSpreadsheet_issued [OF c1 assms(2)] .
  have i2: "ids_issued w2" using createDriveFolder_issued [OF c2 i1] .
  from assms(1) None c1 c2 have "w' = w1 \<or> w' = w2"
    by (auto simp: getUserResources_def split: sum.splits)
  with i1 i2 show ?thesis by auto
qed

lemma getUserResources_ids:
  assumes "getUserResources e c a w = (Inr (sid, fid, n), w')" "ids_issued w"
  shows "issued (next_id w') sid \<and> issued (next_id w') fid"
proof (cases "findOne (of_pair e c) (vouchers w)")
  case None
  from getUserResources_create [OF None assms(1)] show ?thesis
    by (simp add: issued_fresh)
next
  case (Some ex)
  then have "ex \<in> set (vouchers w)" by (auto simp: findOne_def find_Some_iff)
  with assms(2) have "issued (next_id w) (spreadsheetId ex) \<and> issued (next_id w) (folderId ex)"
    by (simp add: ids_issued_iff)
  with getUserResources_reuse [OF Some, of a] assms(1) show ?thesis by simp
qed

lemma drive_files_create_issued:
  assumes "drive_files_create nm p pdf a w = (r, w')" "ids_issued w"
  shows "ids_issued w' \<and> next_id w \<le> next_id w'"
proof (cases "fst (drive_files_create nm p pdf a w)")
  case (Inl e)
  with assms have "w' = w"
    by (auto simp: drive_files_create_def Let_def split: option.splits)
  with assms show ?thesis by simp
next
  case (Inr x)
  with assms(1) have "drive_files_create nm p pdf a w = (Inr (fst x, snd x), w')" by simp
  from drive_files_create_Inr [OF this] assms(2) show ?thesis
    by (auto simp: ids_issued_files intro: ids_issued_next)
qed

lemma delete_old_pdf_issued:
  "delete_old_pdf i a w = (r, w') \<Longrightarrow> ids_issued w \<Longrightarrow> ids_issued w'"
  by (auto simp: delete_old_pdf_def drive_files_delete_def ids_issued_files
      split: option.splits if_splits)

lemma sheet_update_issued:
  assumes "sheet_of sid t a w = Some (i, sh)" "ids_issued w"
  shows "ids_issued (w\<lparr>spreadsheets := AList.update i sh' (spreadsheets w)\<rparr>)"
proof -
  from sheet_of_Some [OF assms(1)] have "i \<in> fst ` set (spreadsheets w)"
    by (auto dest: map_of_SomeD intro: rev_image_eqI)
  with assms(2) have "issued (next_id w) (Some i)" by (auto simp: ids_issued_iff)
  with assms(2) show ?thesis by (rule ids_issued_sheets)
qed

lemma values_append_issued:
  "values_append sid t vals a w = (r, w') \<Longrightarrow> ids_issued w \<Longrightarrow> ids_issued w'"
  by (cases "sheet_of sid t a w") (auto simp: values_append_def sheet_update_issued)

lemma values_update_issued:
  "values_update sid t k vals a w = (r, w') \<Longrightarrow> ids_issued w \<Longrightarrow> ids_issued w'"
  by (cases "sheet_of sid t a w") (auto simp: values_update_def sheet_update_issued)

lemma values_clear_issued:
  "values_clear sid t k a w = (r, w') \<Longrightarrow> ids_issued w \<Longrightarrow> ids_issued w'"
  by (cases "sheet_of sid t a w") (auto simp: values_clear_def sheet_update_issued)

lemma voucher_save_issued:
  assumes "voucher_save v w = (r, w')" "ids_issued w"
    "issued (next_id w) (spreadsheetId v)" "issued (next_id w) (folderId v)"
  shows "ids_issued w'"
proof (cases "validate v")
  case False
  with assms show ?thesis by (simp add: voucher_save_def)
next
  case True
  have "ids_issued (w\<lparr>vouchers := vouchers w @ [v\<lparr>oid := next_oid w\<rparr>]\<rparr>)"
    using assms(2-4) by (intro ids_issued_vouchers) (auto simp: ids_issued_iff)
  then have "ids_issued (w\<lparr>vouchers := vouchers w @ [v\<lparr>oid := next_oid w\<rparr>],
      next_oid := Suc (next_oid w)\<rparr>)"
    by (simp add: ids_issued_next_oid)
  with True assms(1) show ?thesis
    by (auto simp: voucher_save_def)
qed

lemma values_append_next_id:
  "values_append sid t vals a w = (r, w') \<Longrightarrow> next_id w' = next_id w"
  by (auto simp: values_append_def split: option.splits)

lemma submit_finish_issued:
  assumes sf: "submit_finish usr auth d f sid fid n w = (r, w')" and i: "ids_issued w"
    and s: "issued (next_id w) sid" "issued (next_id w) fid"
  shows "ids_issued w'"
proof -
  obtain r1 w1 where dc: "drive_files_create (f, n) fid (render d n) auth w = (r1, w1)"
    by (cases "drive_files_create (f, n) fid (render d n) auth w")
  from drive_files_create_issued [OF dc i] have i1: "ids_issued w1" "next_id w \<le> next_id w1"
    by simp_all
  show ?thesis
  proof (cases r1)
    case (Inl e)
    with sf dc i1 show ?thesis by (simp add: submit_finish_def)
  next
    case (Inr x)
    obtain fileId link where x: "x = (fileId, link)" by (cases x)
    obtain r2 w2 where va: "values_append sid f (row_values d n link) auth w1 = (r2, w2)"
      by (cases "values_append sid f (row_values d n link) auth w1")
    have i2: "ids_issued w2" using values_append_issued [OF va i1(1)] .
    have n2: "next_id w \<le> next_id w2" using values_append_next_id [OF va] i1(2) by simp
    show ?thesis
    proof (cases r2)
      case (Inl e)
      with sf dc Inr x va i2 show ?thesis by (simp add: submit_finish_def)
    next
      case Inr2: (Inr u)
      let ?v = "new_voucher usr d f n link sid fid fileId"
      obtain r3 w3 where vs: "voucher_save ?v w2 = (r3, w3)"
        by (cases "voucher_save ?v w2")
      have "issued (next_id w2) (spreadsheetId ?v)" "issued (next_id w2) (folderId ?v)"
        using s n2 by (auto simp: new_voucher_def intro: issued_mono)
      from voucher_save_issued [OF vs i2 this] have "ids_issued w3" .
      moreover have "w' = w3"
        using sf dc Inr x va Inr2 vs by (auto simp: submit_finish_def split: sum.splits)
      ultimately show ?thesis by simp
    qed
  qed
qed

lemma authenticateGoogle_next_id:
  "authenticateGoogle req w = (r, w') \<Longrightarrow> next_id w' = next_id w"
  using authenticateGoogle_frame [of req w r w'] by simp

lemma submit_issued:
  assumes sb: "submit req w = (r, w')" and i: "ids_issued w"
  shows "ids_issued w'"
proof (cases "filter_opt (body req)")
  case None
  with sb i show ?thesis by (simp add: submit_def Let_def)
next
  case (Some f)
  show ?thesis
  proof (cases "f \<in> set companies")
    case False
    with sb i Some show ?thesis by (simp add: submit_def Let_def)
  next
    case True
    obtain r1 w1 where au: "authenticateGoogle req w = (r1, w1)"
      by (cases "authenticateGoogle req w")
    have i1: "ids_issued w1" using authenticateGoogle_issued [OF au i] .
    show ?thesis
    proof (cases r1)
      case (Inl e)
      with sb Some True au i1 show ?thesis by (simp add: submit_def Let_def)
    next
      case (Inr x)
      obtain usr auth where x: "x = (usr, auth)" by (cases x)
      obtain r2 w2 where gr: "getUserResources (user.email usr) f auth w1 = (r2, w2)"
        by (cases "getUserResources (user.email usr) f auth w1")
      have i2: "ids_issued w2" using getUserResources_issued [OF gr i1] .
      show ?thesis
      proof (cases r2)
        case (Inl e)
        with sb Some True au Inr x gr i2 show ?thesis by (simp add: submit_def Let_def)
      next
        case Inr2: (Inr y)
        obtain sid fid vn where y: "y = (sid, fid, vn)" by (cases y)
        from gr Inr2 y have "getUserResources (user.email usr) f auth w1 = (Inr (sid, fid, vn), w2)"
          by simp
        from getUserResources_ids [OF this i1] have
          s: "issued (next_id w2) sid" "issued (next_id w2) fid" by simp_all
        let ?n = "chosen_number (body_voucherNo (body req)) vn"
        show ?thesis
        proof (cases "?n = 0")
          case True': True
          with sb Some True au Inr x gr Inr2 y i2 show ?thesis by (simp add: submit_def Let_def)
        next
          case False
          with sb Some True au Inr x gr Inr2 y have
            "submit_finish usr auth (body req) f sid fid ?n w2 = (r, w')"
            by (simp add: submit_def Let_def)
          from submit_finish_issued [OF this i2 s] show ?thesis .
        qed
      qed
    qed
  qed
qed

lemma ids_issued_same_ids:
  assumes "map kept vs = map kept (vouchers w)"
  shows "ids_issued (w\<lparr>vouchers := vs\<rparr>) = ids_issued w"
proof -
  let ?g = "\<lambda>v. (spreadsheetId v, folderId v)"
  let ?h = "\<lambda>k::nat \<times> string \<times> string \<times> int \<times> string option \<times> string option.
      snd (snd (snd (snd k)))"
  let ?P = "\<lambda>p. issued (next_id w) (fst p) \<and> issued (next_id w) (snd p)"
  have g: "?g = ?h \<circ> kept" by (simp add: fun_eq_iff kept_def)
  have "map ?g vs = map ?h (map kept vs)" unfolding g by simp
  also have "\<dots> = map ?h (map kept (vouchers w))" using assms by simp
  also have "\<dots> = map ?g (vouchers w)" unfolding g by simp
  finally have "list_all ?P (map ?g vs) = list_all ?P (map ?g (vouchers w))" by simp
  then have "list_all (\<lambda>v. issued (next_id w) (spreadsheetId v) \<and> issued (next_id w) (folderId v)) vs
      = list_all (\<lambda>v. issued (next_id w) (spreadsheetId v) \<and> issued (next_id w) (folderId v))
          (vouchers w)"
    by (simp add: list.pred_map comp_def)
  then show ?thesis by (simp add: ids_issued_def)
qed

lemma set_delete_first: "set (delete_first q xs) \<subseteq> set xs"
  by (induction xs) auto

lemma values_update_next_id:
  "values_update sid t k vals a w = (r, w') \<Longrightarrow> next_id w' = next_id w"
  by (auto simp: values_update_def split: option.splits)

lemma edit_finish_issued:
  assumes ef: "edit_finish usr auth vid d f ex w = (r, w')" and i: "ids_issued w"
  shows "ids_issued w'"
proof -
  obtain r1 w1 where dl: "delete_old_pdf (pdfFileId ex) auth w = (r1, w1)"
    by (cases "delete_old_pdf (pdfFileId ex) auth w")
  have i1: "ids_issued w1" using delete_old_pdf_issued [OF dl i] .
  show ?thesis
  proof (cases r1)
    case (Inl e)
    with ef dl i1 show ?thesis by (simp add: edit_finish_def Let_def)
  next
    case (Inr u)
    obtain r2 w2 where dc: "drive_files_create (f, voucherNo ex) (folderId ex)
        (render d (voucherNo ex)) auth w1 = (r2, w2)"
      by (cases "drive_files_create (f, voucherNo ex) (folderId ex)
        (render d (voucherNo ex)) auth w1")
    have i2: "ids_issued w2" using drive_files_create_issued [OF dc i1] by simp
    show ?thesis
    proof (cases r2)
      case (Inl e)
      with ef dl Inr dc i2 show ?thesis by (simp add: edit_finish_def Let_def)
    next
      case Inr2: (Inr x)
      obtain fileId link where x: "x = (fileId, link)" by (cases x)
      show ?thesis
      proof (cases "values_get (spreadsheetId ex) f auth w2")
        case (Inl e)
        with ef dl Inr dc Inr2 x i2 show ?thesis by (simp add: edit_finish_def Let_def)
      next
        case Inr3: (Inr rs)
        show ?thesis
        proof (cases "row_index (voucherNo ex) rs")
          case None
          with ef dl Inr dc Inr2 x Inr3 i2 show ?thesis by (simp add: edit_finish_def Let_def)
        next
          case (Some rowIndex)
          obtain r3 w3 where vu: "values_update (spreadsheetId ex) f (rowIndex + 2)
              (row_values d (voucherNo ex) link) auth w2 = (r3, w3)"
            by (cases "values_update (spreadsheetId ex) f (rowIndex + 2)
              (row_values d (voucherNo ex) link) auth w2")
          have i3: "ids_issued w3" using values_update_issued [OF vu i2] .
          show ?thesis
          proof (cases r3)
            case (Inl e)
            with ef dl Inr dc Inr2 x Inr3 Some vu i3 show ?thesis
              by (simp add: edit_finish_def Let_def)
          next
            case Inr4: (Inr u')
            let ?vs = "update_first (by_id vid (user.email usr)) (edit_update d link fileId)
                (vouchers w3)"
            have "map kept ?vs = map kept (vouchers w3)"
              by (rule map_update_first) (rule kept_edit_update)
            then have "ids_issued (w3\<lparr>vouchers := ?vs\<rparr>)"
              using i3 by (simp add: ids_issued_same_ids)
            moreover have "w' = w3\<lparr>vouchers := ?vs\<rparr>"
              using ef dl Inr dc Inr2 x Inr3 Some vu Inr4 by (simp add: edit_finish_def Let_def)
            ultimately show ?thesis by simp
          qed
        qed
      qed
    qed
  qed
qed

lemma edit_voucher_issued:
  assumes ev: "edit_voucher vid req w = (r, w')" and i: "ids_issued w"
  shows "ids_issued w'"
proof (cases "registered (filter_opt (body req))")
  case False
  from edit_voucher_unregistered [OF this, of vid w] ev i show ?thesis by simp
next
  case True
  then obtain f where f: "filter_opt (body req) = Some f" "f \<in> set companies"
    by (auto simp: registered_def split: option.splits)
  obtain r1 w1 where au: "authenticateGoogle req w = (r1, w1)"
    by (cases "authenticateGoogle req w")
  have i1: "ids_issued w1" using authenticateGoogle_issued [OF au i] .
  show ?thesis
  proof (cases r1)
    case (Inl e)
    with ev f au i1 show ?thesis by (simp add: edit_voucher_def Let_def)
  next
    case (Inr x)
    obtain usr auth where x: "x = (usr, auth)" by (cases x)
    show ?thesis
    proof (cases "findOne (by_id vid (user.email usr)) (vouchers w1)")
      case None
      with ev f au Inr x i1 show ?thesis
        by (auto simp: edit_voucher_def Let_def split: record_id.splits)
    next
      case (Some ex)
      from findOne_by_id [OF Some] have "vid = ObjectId (oid ex)" .
      with Some ev f au Inr x have "edit_finish usr auth vid (body req) f ex w1 = (r, w')"
        by (simp add: edit_voucher_def Let_def)
      from edit_finish_issued [OF this i1] show ?thesis .
    qed
  qed
qed

lemma delete_voucher_issued:
  assumes dv: "delete_voucher n req w = (r, w')" and i: "ids_issued w"
  shows "ids_issued w'"
proof -
  obtain r1 w1 where au: "authenticateGoogle req w = (r1, w1)"
    by (cases "authenticateGoogle req w")
  have i1: "ids_issued w1" using authenticateGoogle_issued [OF au i] .
  show ?thesis
  proof (cases r1)
    case (Inl e)
    with dv au i1 show ?thesis by (simp add: delete_voucher_def)
  next
    case (Inr x)
    obtain usr auth where x: "x = (usr, auth)" by (cases x)
    show ?thesis
    proof (cases "findOne (by_number n (user.email usr)) (vouchers w1)")
      case None
      with dv au Inr x i1 show ?thesis by (simp add: delete_voucher_def)
    next
      case (Some ex)
      obtain r2 w2 where dl: "delete_old_pdf (pdfFileId ex) auth w1 = (r2, w2)"
        by (cases "delete_old_pdf (pdfFileId ex) auth w1")
      have i2: "ids_issued w2" using delete_old_pdf_issued [OF dl i1] .
      show ?thesis
      proof (cases r2)
        case (Inl e)
        with dv au Inr x Some dl i2 show ?thesis by (simp add: delete_voucher_def Let_def)
      next
        case Inr2: (Inr u)
        show ?thesis
        proof (cases "values_get (spreadsheetId ex) (company ex) auth w2")
          case (Inl e)
          with dv au Inr x Some dl Inr2 i2 show ?thesis by (simp add: delete_voucher_def Let_def)
        next
          case Inr3: (Inr rs)
          obtain r3 w3 where cl: "(case row_index n rs of None \<Rightarrow> (Inr (), w2)
              | Some rowIndex \<Rightarrow>
                  values_clear (spreadsheetId ex) (company ex) (rowIndex + 2) auth w2) = (r3, w3)"
            by (cases "(case row_index n rs of None \<Rightarrow> (Inr (), w2)
              | Some rowIndex \<Rightarrow>
                  values_clear (spreadsheetId ex) (company ex) (rowIndex + 2) auth w2)")
          have i3: "ids_issued w3"
          proof (cases "row_index n rs")
            case None
            with cl i2 show ?thesis by simp
          next
            case (Some rowIndex)
            with cl have "values_clear (spreadsheetId ex) (company ex) (rowIndex + 2) auth w2
                = (r3, w3)" by simp
            from values_clear_issued [OF this i2] show ?thesis .
          qed
          show ?thesis
          proof (cases r3)
            case (Inl e)
            with dv au Inr x Some dl Inr2 Inr3 cl i3 show ?thesis
              by (simp add: delete_voucher_def Let_def)
          next
            case Inr4: (Inr u')
            let ?vs = "delete_first (by_number n (user.email usr)) (vouchers w3)"
            have "ids_issued (w3\<lparr>vouchers := ?vs\<rparr>)"
              using i3 set_delete_first [of "by_number n (user.email usr)" "vouchers w3"]
              by (intro ids_issued_vouchers) (auto simp: ids_issued_iff)
            moreover have "w' = w3\<lparr>vouchers := ?vs\<rparr>"
              using dv au Inr x Some dl Inr2 Inr3 cl Inr4 by (simp add: delete_voucher_def Let_def)
            ultimately show ?thesis by simp
          qed
        qed
      qed
    qed
  qed
qed

lemma list_vouchers_issued:
  assumes "list_vouchers qc qd qs req w = (r, w')" "ids_issued w"
  shows "ids_issued w'"
proof -
  obtain r1 w1 where au: "authenticateGoogle req w = (r1, w1)"
    by (cases "authenticateGoogle req w")
  have i1: "ids_issued w1" using authenticateGoogle_issued [OF au assms(2)] .
  from assms(1) au have "w' = w1"
    by (cases r1) (auto simp: list_vouchers_def)
  with i1 show ?thesis by simp
qed

lemma get_voucher_no_issued:
  assumes gv: "get_voucher_no qf req w = (r, w')" and i: "ids_issued w"
  shows "ids_issued w'"
proof (cases "registered qf")
  case False
  with gv i show ?thesis
    by (auto simp: get_voucher_no_def registered_def split: option.splits)
next
  case True
  then obtain f where f: "qf = Some f" "f \<in> set companies"
    by (auto simp: registered_def split: option.splits)
  obtain r1 w1 where au: "authenticateGoogle req w = (r1, w1)"
    by (cases "authenticateGoogle req w")
  have i1: "ids_issued w1" using authenticateGoogle_issued [OF au i] .
  show ?thesis
  proof (cases r1)
    case (Inl e)
    with gv f au i1 show ?thesis by (simp add: get_voucher_no_def)
  next
    case (Inr x)
    obtain usr auth where x: "x = (usr, auth)" by (cases x)
    obtain r2 w2 where gr: "getUserResources (user.email usr) f auth w1 = (r2, w2)"
      by (cases "getUserResources (user.email usr) f auth w1")
    have i2: "ids_issued w2" using getUserResources_issued [OF gr i1] .
    from gv f au Inr x gr have "w' = w2"
      by (cases r2) (auto simp: get_voucher_no_def)
    with i2 show ?thesis by simp
  qed
qed

lemma ex_world_issued: "ids_issued ex_world"
  by code_simp

section \<open>Submit, then list\<close>






lemma ex_submit1:
  "submit (ex_request ''s1'' ''ta'' ex_form) ex_world
     = (Inr (Submitted ''https://docs.google.com/spreadsheets/d/g/edit'' ''g00''), ex_world1)"
proof -
  have "fst (submit (ex_request ''s1'' ''ta'' ex_form) ex_world)
      = Inr (Submitted ''https://docs.google.com/spreadsheets/d/g/edit'' ''g00'')"
    by code_simp
  then show ?thesis by (simp add: ex_world1_def prod_eq_iff)
qed


section \<open>The appended row and the header\<close>

lemma row_values_new_voucher:
  assumes "filter_opt d = Some f"
  shows "zip headerValues (row_values d n l) =
    (let v = (new_voucher usr d f n l sid fid fileId)\<lparr>oid := k\<rparr> in
     [(''Voucher No.'', JNum (voucherNo v)), (''Date'', opt_val (date v)),
      (''Filter'', JStr (company v)), (''Pay to'', opt_val (payTo v)),
      (''Account Head'', opt_val (accountHead v)), (''Towards'', opt_val (account v)),
      (''Transaction Type'', opt_val (transactionType v)), (''The Sum'', opt_val (amount v)),
      (''Amount Rs.'', opt_val (amountRs v)), (''Checked By'', opt_val (checkedBy v)),
      (''Approved By'', opt_val (approvedBy v)),
      (''Receiver Signature'', opt_val (receiverSignature v)), (''PDF Link'', JStr l)])"
  using assms by (simp add: row_values_def headerValues_def new_voucher_def opt_val_def)

text \<open>
  Claim C3. A successful submit appends one row to the sheet of the spreadsheet the
  stored voucher names, after the rows the sheet had: those of the pair's spreadsheet
  when the pair had a voucher, and the header row alone when the spreadsheet was
  provisioned by this submit. The row has the 13 cells of \<open>row_values\<close>, as many as the
  header has columns, and cell by cell it lies under the header as follows: the number
  under "Voucher No.", the date under "Date", the category under "Filter", the payee
  under "Pay to", the account head under "Account Head", the account under "Towards",
  the transaction type under "Transaction Type", the amount under "The Sum", the amount
  in words (\<open>amountRs\<close>) under "Amount Rs.", then the three signatures and the link of
  the document under "PDF Link". The values are those stored in the voucher.
\<close>

theorem submit_row_in_header_order:
  assumes "submit req w = (Inr resp, w')"
  shows "\<exists>usr auth w1 c i v l rs row.
     authenticateGoogle req w = (Inr (usr, auth), w1) \<and> filter_opt (body req) = Some c \<and>
     vouchers w' = vouchers w @ [v] \<and> spreadsheetId v = Some i \<and> pdfLink v = Some l \<and>
     map_option rows (map_of (spreadsheets w') i) = Some (rs @ [row]) \<and>
     (case findOne (of_pair (user.email usr) c) (vouchers w) of
        None \<Rightarrow> rs = [map JStr headerValues]
      | Some ex \<Rightarrow> map_option rows (map_of (spreadsheets w) i) = Some rs) \<and>
     row = row_values (body req) (voucherNo v) l \<and>
     length row = length headerValues \<and> length headerValues = 13 \<and>
     zip headerValues row =
       [(''Voucher No.'', JNum (voucherNo v)), (''Date'', opt_val (date v)),
        (''Filter'', JStr (company v)), (''Pay to'', opt_val (payTo v)),
        (''Account Head'', opt_val (accountHead v)), (''Towards'', opt_val (account v)),
        (''Transaction Type'', opt_val (transactionType v)), (''The Sum'', opt_val (amount v)),
        (''Amount Rs.'', opt_val (amountRs v)), (''Checked By'', opt_val (checkedBy v)),
        (''Approved By'', opt_val (approvedBy v)),
        (''Receiver Signature'', opt_val (receiverSignature v)), (''PDF Link'', JStr l)]"
proof -
  from submit_Inr [OF assms] obtain f usr auth w1 sid fid vn w2 where
    f: "filter_opt (body req) = Some f" and
    au: "authenticateGoogle req w = (Inr (usr, auth), w1)" and
    gr: "getUserResources (user.email usr) f auth w1 = (Inr (sid, fid, vn), w2)" and
    fin: "submit_finish usr auth (body req) f sid fid
          (chosen_number (body_voucherNo (body req)) vn) w2 = (Inr resp, w')"
    by blast
  let ?n = "chosen_number (body_voucherNo (body req)) vn"
  from submit_finish_Inr [OF fin] obtain fileId link w3 w4 where
    dc: "drive_files_create (f, ?n) fid (render (body req) ?n) auth w2 = (Inr (fileId, link), w3)" and
    va: "values_append sid f (row_values (body req) ?n link) auth w3 = (Inr (), w4)" and
    w': "w' = w4\<lparr>vouchers := vouchers w4 @
                  [(new_voucher usr (body req) f ?n link sid fid fileId)\<lparr>oid := next_oid w4\<rparr>],
              next_oid := Suc (next_oid w4)\<rparr>"
    by blast
  let ?v = "(new_voucher usr (body req) f ?n link sid fid fileId)\<lparr>oid := next_oid w4\<rparr>"
  let ?row = "row_values (body req) ?n link"
  have v1: "vouchers w1 = vouchers w" "spreadsheets w1 = spreadsheets w" "next_id w1 = next_id w"
    using authenticateGoogle_frame [OF au] by simp_all
  have v2: "vouchers w2 = vouchers w1" using getUserResources_frame [OF gr] by simp
  have v3: "vouchers w3 = vouchers w2" "spreadsheets w3 = spreadsheets w2"
    using drive_files_create_Inr [OF dc] by auto
  from values_append_Inr [OF va] obtain i sh where
    so: "sheet_of sid f auth w3 = Some (i, sh)" and
    w4: "w4 = w3\<lparr>spreadsheets :=
                  AList.update i (sh\<lparr>rows := rows sh @ [?row]\<rparr>) (spreadsheets w3)\<rparr>"
    by blast
  from sheet_of_Some [OF so] have sid: "sid = Some i" and sh: "map_of (spreadsheets w3) i = Some sh"
    by simp_all
  have vs: "vouchers w' = vouchers w @ [?v]" using w' w4 v1 v2 v3 by simp
  have sel: "spreadsheetId ?v = Some i" "pdfLink ?v = Some link" "voucherNo ?v = ?n"
    using sid by (simp_all add: new_voucher_sel)
  have rw: "map_option rows (map_of (spreadsheets w') i) = Some (rows sh @ [?row])"
    using w' w4 by (simp add: update_conv')
  have before: "case findOne (of_pair (user.email usr) f) (vouchers w) of
        None \<Rightarrow> rows sh = [map JStr headerValues]
      | Some ex \<Rightarrow> map_option rows (map_of (spreadsheets w) i) = Some (rows sh)"
  proof (cases "findOne (of_pair (user.email usr) f) (vouchers w)")
    case (Some ex)
    with v1 have "findOne (of_pair (user.email usr) f) (vouchers w1) = Some ex" by simp
    from getUserResources_reuse [OF this, of auth] gr have "w2 = w1" by simp
    with sh v3 v1 Some show ?thesis by simp
  next
    case None
    with v1 have "findOne (of_pair (user.email usr) f) (vouchers w1) = None" by simp
    from getUserResources_create [OF this gr] have
      "sid = Some (fresh_id (next_id w1))"
      "spreadsheets w2 = AList.update (fresh_id (next_id w1))
          \<lparr>title = f, rows = [map JStr headerValues]\<rparr> (spreadsheets w1)"
      by simp_all
    with sid sh v3 have "sh = \<lparr>title = f, rows = [map JStr headerValues]\<rparr>"
      by (simp add: update_conv')
    with None show ?thesis by simp
  qed
  have len: "length ?row = length headerValues" "length headerValues = 13"
    by (simp_all add: row_values_def headerValues_def)
  from row_values_new_voucher [OF f, where n = ?n and l = link and usr = usr and sid = sid
      and fid = fid and fileId = fileId and k = "next_oid w4"]
  have z: "zip headerValues ?row =
       [(''Voucher No.'', JNum (voucherNo ?v)), (''Date'', opt_val (date ?v)),
        (''Filter'', JStr (company ?v)), (''Pay to'', opt_val (payTo ?v)),
        (''Account Head'', opt_val (accountHead ?v)), (''Towards'', opt_val (account ?v)),
        (''Transaction Type'', opt_val (transactionType ?v)), (''The Sum'', opt_val (amount ?v)),
        (''Amount Rs.'', opt_val (amountRs ?v)), (''Checked By'', opt_val (checkedBy ?v)),
        (''Approved By'', opt_val (approvedBy ?v)),
        (''Receiver Signature'', opt_val (receiverSignature ?v)), (''PDF Link'', JStr link)]"
    by (simp only: Let_def)
  have r: "?row = row_values (body req) (voucherNo ?v) link" using sel(3) by simp
  show ?thesis
    apply (rule exI [of _ usr], rule exI [of _ auth], rule exI [of _ w1], rule exI [of _ f])
    apply (rule exI [of _ i], rule exI [of _ ?v], rule exI [of _ link])
    apply (rule exI [of _ "rows sh"], rule exI [of _ ?row])
    using au f vs sel(1,2) rw before r len z by (intro conjI)
qed

text \<open>
  Alice's submit on the empty world provisions the spreadsheet: its sheet then holds the
  header and, under it, the row of her form.
\<close>

theorem submit_row_in_header_order_witness:
  "map_option rows (map_of (spreadsheets ex_world1) ''g'') =
     Some [[JStr ''Voucher No.'', JStr ''Date'', JStr ''Filter'', JStr ''Pay to'',
            JStr ''Account Head'', JStr ''Towards'', JStr ''Transaction Type'',
            JStr ''The Sum'', JStr ''Amount Rs.'', JStr ''Checked By'',
            JStr ''Approved By'', JStr ''Receiver Signature'', JStr ''PDF Link''],
           [JNum 1, JStr ''2024-01-01'', JStr ''Contentstack'', JStr ''Carol'',
            JUndef, JUndef, JStr ''UPI'',
            JStr ''500'', JStr ''Five hundred'', JUndef,
            JUndef, JUndef, JStr ''https://drive.google.com/file/d/g00/view'']]"
proof -
  let ?rq = "ex_request ''s1'' ''ta'' ex_form"
  have a: "fst (authenticateGoogle ?rq ex_world) = Inr (ex_alice, Some ''ta'')"
    by code_simp
  have c: "filter_opt (body ?rq) = Some ''Contentstack''"
    by code_simp
  have n: "findOne (of_pair (user.email ex_alice) ''Contentstack'') (vouchers ex_world) = None"
    by code_simp
  have v: "map spreadsheetId (vouchers ex_world1) = [Some ''g'']"
    "map voucherNo (vouchers ex_world1) = [1]"
    "map pdfLink (vouchers ex_world1) = [Some ''https://drive.google.com/file/d/g00/view'']"
    "vouchers ex_world = []"
    by code_simp+
  have r: "row_values (body ?rq) 1 ''https://drive.google.com/file/d/g00/view'' =
           [JNum 1, JStr ''2024-01-01'', JStr ''Contentstack'', JStr ''Carol'',
            JUndef, JUndef, JStr ''UPI'',
            JStr ''500'', JStr ''Five hundred'', JUndef,
            JUndef, JUndef, JStr ''https://drive.google.com/file/d/g00/view'']"
    by code_simp
  from submit_row_in_header_order [OF ex_submit1] obtain usr auth w1 c' i v' l rs row where
    "authenticateGoogle ?rq ex_world = (Inr (usr, auth), w1)"
    "filter_opt (body ?rq) = Some c'"
    "vouchers ex_world1 = vouchers ex_world @ [v']"
    "spreadsheetId v' = Some i" "pdfLink v' = Some l"
    "map_option rows (map_of (spreadsheets ex_world1) i) = Some (rs @ [row])"
    "case findOne (of_pair (user.email usr) c') (vouchers ex_world) of
        None \<Rightarrow> rs = [map JStr headerValues]
      | Some ex \<Rightarrow> map_option rows (map_of (spreadsheets ex_world) i) = Some rs"
    "row = row_values (body ?rq) (voucherNo v') l"
    by blast
  with a c n v r show ?thesis by (simp add: headerValues_def)
qed

section \<open>Runs of submissions and deletions\<close>

lemma drive_files_create_vouchers:
  "drive_files_create nm p pdf a w = (r, w') \<Longrightarrow> vouchers w' = vouchers w"
  by (auto simp: drive_files_create_def Let_def split: option.splits)

lemma values_append_vouchers:
  "values_append sid t vals a w = (r, w') \<Longrightarrow> vouchers w' = vouchers w"
  by (auto simp: values_append_def split: option.splits)

lemma values_clear_vouchers:
  "values_clear sid t k a w = (r, w') \<Longrightarrow> vouchers w' = vouchers w"
  by (auto simp: values_clear_def split: option.splits)

lemma submit_finish_failed:
  assumes sf: "submit_finish usr auth d f sid fid n w = (Inl e, w')"
  shows "vouchers w' = vouchers w"
proof -
  obtain r1 w1 where dc: "drive_files_create (f, n) fid (render d n) auth w = (r1, w1)"
    by (cases "drive_files_create (f, n) fid (render d n) auth w")
  have v1: "vouchers w1 = vouchers w" using drive_files_create_vouchers [OF dc] .
  show ?thesis
  proof (cases r1)
    case (Inl e1)
    with sf dc v1 show ?thesis by (simp add: submit_finish_def)
  next
    case (Inr x)
    obtain fileId link where x: "x = (fileId, link)" by (cases x)
    obtain r2 w2 where va: "values_append sid f (row_values d n link) auth w1 = (r2, w2)"
      by (cases "values_append sid f (row_values d n link) auth w1")
    have v2: "vouchers w2 = vouchers w1" using values_append_vouchers [OF va] .
    show ?thesis
    proof (cases r2)
      case (Inl e2)
      with sf dc Inr x va v1 v2 show ?thesis by (simp add: submit_finish_def)
    next
      case Inr2: (Inr u)
      from sf dc Inr x va Inr2 have "w' = w2"
        by (auto simp: submit_finish_def voucher_save_def split: if_splits)
      with v1 v2 show ?thesis by simp
    qed
  qed
qed

lemma submit_failed:
  assumes sb: "submit req w = (Inl e, w')"
  shows "vouchers w' = vouchers w"
proof (cases "filter_opt (body req)")
  case None
  with sb show ?thesis by (simp add: submit_def Let_def)
next
  case (Some f)
  show ?thesis
  proof (cases "f \<in> set companies")
    case False
    with sb Some show ?thesis by (simp add: submit_def Let_def)
  next
    case True
    obtain r1 w1 where au: "authenticateGoogle req w = (r1, w1)"
      by (cases "authenticateGoogle req w")
    have v1: "vouchers w1 = vouchers w" using authenticateGoogle_frame [OF au] by simp
    show ?thesis
    proof (cases r1)
      case (Inl e1)
      with sb Some True au v1 show ?thesis by (simp add: submit_def Let_def)
    next
      case (Inr x)
      obtain usr auth where x: "x = (usr, auth)" by (cases x)
      obtain r2 w2 where gr: "getUserResources (user.email usr) f auth w1 = (r2, w2)"
        by (cases "getUserResources (user.email usr) f auth w1")
      have v2: "vouchers w2 = vouchers w1" using getUserResources_frame [OF gr] by simp
      show ?thesis
      proof (cases r2)
        case (Inl e2)
        with sb Some True au Inr x gr v1 v2 show ?thesis by (simp add: submit_def Let_def)
      next
        case Inr2: (Inr y)
        obtain sid fid vn where y: "y = (sid, fid, vn)" by (cases y)
        let ?n = "chosen_number (body_voucherNo (body req)) vn"
        show ?thesis
        proof (cases "?n = 0")
          case True': True
          with sb Some True au Inr x gr Inr2 y v1 v2 show ?thesis
            by (simp add: submit_def Let_def)
        next
          case False
          with sb Some True au Inr x gr Inr2 y have
            "submit_finish usr auth (body req) f sid fid ?n w2 = (Inl e, w')"
            by (simp add: submit_def Let_def)
          from submit_finish_failed [OF this] v1 v2 show ?thesis by simp
        qed
      qed
    qed
  qed
qed

lemma delete_voucher_vouchers:
  assumes dv: "delete_voucher n req w = (r, w')"
  shows "vouchers w' = vouchers w \<or> (\<exists>q. vouchers w' = delete_first q (vouchers w))"
proof -
  obtain r1 w1 where au: "authenticateGoogle req w = (r1, w1)"
    by (cases "authenticateGoogle req w")
  have v1: "vouchers w1 = vouchers w" using authenticateGoogle_frame [OF au] by simp
  show ?thesis
  proof (cases r1)
    case (Inl e)
    with dv au v1 show ?thesis by (simp add: delete_voucher_def)
  next
    case (Inr x)
    obtain usr auth where x: "x = (usr, auth)" by (cases x)
    show ?thesis
    proof (cases "findOne (by_number n (user.email usr)) (vouchers w1)")
      case None
      with dv au Inr x v1 show ?thesis by (simp add: delete_voucher_def)
    next
      case (Some ex)
      obtain r2 w2 where dl: "delete_old_pdf (pdfFileId ex) auth w1 = (r2, w2)"
        by (cases "delete_old_pdf (pdfFileId ex) auth w1")
      have v2: "vouchers w2 = vouchers w1" using delete_old_pdf_frame [OF dl] by simp
      show ?thesis
      proof (cases r2)
        case (Inl e)
        with dv au Inr x Some dl v1 v2 show ?thesis by (simp add: delete_voucher_def Let_def)
      next
        case Inr2: (Inr u)
        show ?thesis
        proof (cases "values_get (spreadsheetId ex) (company ex) auth w2")
          case (Inl e)
          with dv au Inr x Some dl Inr2 v1 v2 show ?thesis
            by (simp add: delete_voucher_def Let_def)
        next
          case Inr3: (Inr rs)
          obtain r3 w3 where cl: "(case row_index n rs of None \<Rightarrow> (Inr (), w2)
              | Some rowIndex \<Rightarrow>
                  values_clear (spreadsheetId ex) (company ex) (rowIndex + 2) auth w2) = (r3, w3)"
            by (cases "(case row_index n rs of None \<Rightarrow> (Inr (), w2)
              | Some rowIndex \<Rightarrow>
                  values_clear (spreadsheetId ex) (company ex) (rowIndex + 2) auth w2)")
          have v3: "vouchers w3 = vouchers w2"
          proof (cases "row_index n rs")
            case None
            with cl show ?thesis by simp
          next
            case (Some rowIndex)
            with cl have "values_clear (spreadsheetId ex) (company ex) (rowIndex + 2) auth w2
                = (r3, w3)" by simp
            from values_clear_vouchers [OF this] show ?thesis .
          qed
          show ?thesis
          proof (cases r3)
            case (Inl e)
            with dv au Inr x Some dl Inr2 Inr3 cl v1 v2 v3 show ?thesis
              by (simp add: delete_voucher_def Let_def)
          next
            case Inr4: (Inr u')
            have "w' = w3\<lparr>vouchers := delete_first (by_number n (user.email usr)) (vouchers w3)\<rparr>"
              using dv au Inr x Some dl Inr2 Inr3 cl Inr4 by (simp add: delete_voucher_def Let_def)
            with v1 v2 v3 show ?thesis by auto
          qed
        qed
      qed
    qed
  qed
qed

lemma numbers_same: "vouchers w' = vouchers w \<Longrightarrow> numbers e c w' = numbers e c w"
  by (simp add: numbers_def)

lemma numbers_append:
  "vouchers w' = vouchers w @ [v] \<Longrightarrow>
   numbers e c w' = numbers e c w @ (if of_pair e c v then [voucherNo v] else [])"
  by (simp add: numbers_def)

lemma submit_unnumbered:
  assumes "submit req w = (Inr resp, w')" "unnumbered req"
  shows "\<exists>usr auth w1 c v.
      authenticateGoogle req w = (Inr (usr, auth), w1) \<and> filter_opt (body req) = Some c \<and>
      vouchers w' = vouchers w @ [v] \<and> of_pair (user.email usr) c v \<and>
      voucherNo v = voucherNumber_of (user.email usr) c w"
proof -
  from submit_stored [OF assms(1)] obtain f usr auth w1 sid fid fileId where
    1: "filter_opt (body req) = Some f" "authenticateGoogle req w = (Inr (usr, auth), w1)"
    and vs: "vouchers w' = vouchers w @
        [(new_voucher usr (body req) f
            (chosen_number (body_voucherNo (body req)) (voucherNumber_of (user.email usr) f w))
            (webViewLink fileId) sid fid fileId)\<lparr>oid := next_oid w\<rparr>]"
    by blast
  have "chosen_number (body_voucherNo (body req)) (voucherNumber_of (user.email usr) f w)
      = voucherNumber_of (user.email usr) f w"
    using assms(2) by (simp add: unnumbered_def chosen_number_def split: option.splits)
  with 1 vs show ?thesis by (auto simp: new_voucher_sel of_pair_def)
qed

lemma Max_ge_length:
  fixes ns :: "int list"
  assumes "distinct ns" "\<forall>n\<in>set ns. 1 \<le> n" "ns \<noteq> []"
  shows "int (length ns) \<le> Max (set ns)"
proof -
  have "set ns \<subseteq> {1..Max (set ns)}" using assms(2) by auto
  then have "card (set ns) \<le> card {1..Max (set ns)}" by (intro card_mono) auto
  moreover have "card (set ns) = length ns" using assms(1) by (simp add: distinct_card)
  moreover have "1 \<le> Max (set ns)" using assms(2,3) by (simp add: Max_ge_iff) (meson last_in_set)
  ultimately show ?thesis by simp
qed

lemma voucherNumber_of_fresh:
  assumes "\<forall>n\<in>set (numbers e c w). 1 \<le> n \<and> n \<le> int b" and "int b < 2 ^ 53"
  shows "voucherNumber_of e c w \<notin> set (numbers e c w) \<and> 1 \<le> voucherNumber_of e c w \<and>
         voucherNumber_of e c w \<le> int b + 1 \<and>
         voucherNumber_of e c w =
           (if numbers e c w = [] then 1 else Max (set (numbers e c w)) + 1)"
proof (cases "numbers e c w = []")
  case True
  then show ?thesis by (simp add: voucherNumber_of_Max)
next
  case False
  let ?m = "Max (set (numbers e c w))"
  from False have m: "?m \<in> set (numbers e c w)" by (intro Max_in) auto
  with assms(1) have b: "1 \<le> ?m" "?m \<le> int b" by blast+
  with assms(2) have "- (2 ^ 53) \<le> ?m" "?m < 2 ^ 53" by simp_all
  from voucherNumber_of_exact [OF False this] have v: "voucherNumber_of e c w = ?m + 1" .
  have "?m + 1 \<notin> set (numbers e c w)"
  proof
    assume "?m + 1 \<in> set (numbers e c w)"
    then have "?m + 1 \<le> ?m" by (intro Max_ge) auto
    then show False by simp
  qed
  with v b False show ?thesis by simp
qed

lemma submit_well_numbered:
  assumes sb: "submit req w = (r, w')" and u: "unnumbered req"
    and i: "\<forall>e c. distinct (numbers e c w) \<and> (\<forall>n\<in>set (numbers e c w). 1 \<le> n \<and> n \<le> int b)"
    and b: "int b < 2 ^ 53"
  shows "\<forall>e c. distinct (numbers e c w') \<and>
           (\<forall>n\<in>set (numbers e c w'). 1 \<le> n \<and> n \<le> int (Suc b))"
proof (cases r)
  case (Inl err)
  with sb have "vouchers w' = vouchers w" using submit_failed [of req w err w'] by simp
  from numbers_same [OF this] i show ?thesis by fastforce
next
  case (Inr resp)
  with sb have "submit req w = (Inr resp, w')" by simp
  from submit_unnumbered [OF this u] obtain usr auth w1 c v where
    "authenticateGoogle req w = (Inr (usr, auth), w1)" and
    vs: "vouchers w' = vouchers w @ [v]" and p: "of_pair (user.email usr) c v" and
    n: "voucherNo v = voucherNumber_of (user.email usr) c w"
    by blast
  show ?thesis
  proof (intro allI)
    fix e' c'
    have old: "distinct (numbers e' c' w)"
      "\<forall>n\<in>set (numbers e' c' w). 1 \<le> n \<and> n \<le> int (Suc b)"
      using i by fastforce+
    show "distinct (numbers e' c' w') \<and>
          (\<forall>n\<in>set (numbers e' c' w'). 1 \<le> n \<and> n \<le> int (Suc b))"
    proof (cases "of_pair e' c' v")
      case False
      with old show ?thesis by (simp add: numbers_append [OF vs])
    next
      case True
      with p have ec: "e' = user.email usr" "c' = c" by (simp_all add: of_pair_def)
      from i have "\<forall>n\<in>set (numbers (user.email usr) c w). 1 \<le> n \<and> n \<le> int b" by blast
      from voucherNumber_of_fresh [OF this b] have
        "voucherNumber_of (user.email usr) c w \<notin> set (numbers (user.email usr) c w)"
        "1 \<le> voucherNumber_of (user.email usr) c w"
        "voucherNumber_of (user.email usr) c w \<le> int b + 1"
        by blast+
      with n have
        "voucherNo v \<notin> set (numbers (user.email usr) c w)" "1 \<le> voucherNo v"
        "voucherNo v \<le> int (Suc b)"
        by simp_all
      with old ec True show ?thesis by (simp add: numbers_append [OF vs])
    qed
  qed
qed

lemma delete_first_numbers:
  "distinct (map f (filter p xs)) \<Longrightarrow> distinct (map f (filter p (delete_first q xs)))"
  "set (map f (filter p (delete_first q xs))) \<subseteq> set (map f (filter p xs))"
  by (induction xs) auto

lemma delete_well_numbered:
  assumes dv: "delete_voucher n req w = (r, w')"
    and i: "\<forall>e c. distinct (numbers e c w) \<and> (\<forall>n\<in>set (numbers e c w). 1 \<le> n \<and> n \<le> int b)"
  shows "\<forall>e c. distinct (numbers e c w') \<and>
           (\<forall>n\<in>set (numbers e c w'). 1 \<le> n \<and> n \<le> int (Suc b))"
proof -
  from delete_voucher_vouchers [OF dv] show ?thesis
  proof
    assume "vouchers w' = vouchers w"
    from numbers_same [OF this] i show ?thesis by fastforce
  next
    assume "\<exists>q. vouchers w' = delete_first q (vouchers w)"
    then obtain q where q: "vouchers w' = delete_first q (vouchers w)" by blast
    show ?thesis
    proof (intro allI conjI ballI)
      fix e c
      from i have "distinct (map voucherNo (filter (of_pair e c) (vouchers w)))"
        by (simp add: numbers_def)
      then show "distinct (numbers e c w')"
        unfolding numbers_def q by (rule delete_first_numbers)
    next
      fix e c m assume "m \<in> set (numbers e c w')"
      then have "m \<in> set (numbers e c w)"
        unfolding numbers_def q
        using delete_first_numbers(2) [of voucherNo "of_pair e c" q "vouchers w"] by auto
      with i show "1 \<le> m" by blast
    next
      fix e c m assume "m \<in> set (numbers e c w')"
      then have "m \<in> set (numbers e c w)"
        unfolding numbers_def q
        using delete_first_numbers(2) [of voucherNo "of_pair e c" q "vouchers w"] by auto
      with i have "m \<le> int b" by blast
      then show "m \<le> int (Suc b)" by simp
    qed
  qed
qed

lemma step_well_numbered:
  assumes "allocated a"
    and "\<forall>e c. distinct (numbers e c w) \<and> (\<forall>n\<in>set (numbers e c w). 1 \<le> n \<and> n \<le> int b)"
    and "int b < 2 ^ 53"
  shows "\<forall>e c. distinct (numbers e c (step a w)) \<and>
           (\<forall>n\<in>set (numbers e c (step a w)). 1 \<le> n \<and> n \<le> int (Suc b))"
proof (cases a)
  case (Submit req)
  with assms(1) have "unnumbered req" by simp
  from submit_well_numbered [OF _ this assms(2,3), of "fst (submit req w)" "snd (submit req w)"]
  show ?thesis using Submit by simp
next
  case (Delete n req)
  from delete_well_numbered [OF _ assms(2), of n req "fst (delete_voucher n req w)"
      "snd (delete_voucher n req w)"]
  show ?thesis using Delete by simp
qed

lemma run_well_numbered:
  assumes "list_all allocated as"
    and "\<forall>e c. distinct (numbers e c w) \<and> (\<forall>n\<in>set (numbers e c w). 1 \<le> n \<and> n \<le> int b)"
    and "int (b + length as) \<le> 2 ^ 53"
  shows "\<forall>e c. distinct (numbers e c (run as w)) \<and>
           (\<forall>n\<in>set (numbers e c (run as w)). 1 \<le> n \<and> n \<le> int (b + length as))"
  using assms
proof (induction as arbitrary: w b)
  case Nil
  then show ?case by simp
next
  case (Cons a as)
  from Cons.prems(3) have b: "int b < 2 ^ 53" by simp
  from Cons.prems(1) have "allocated a" by simp
  from step_well_numbered [OF this Cons.prems(2) b] have
    s: "\<forall>e c. distinct (numbers e c (step a w)) \<and>
           (\<forall>n\<in>set (numbers e c (step a w)). 1 \<le> n \<and> n \<le> int (Suc b))" .
  from Cons.prems(3) have l: "int (Suc b + length as) \<le> 2 ^ 53" by simp
  from Cons.prems(1) have "list_all allocated as" by simp
  from Cons.IH [OF this s l] show ?case by simp
qed

lemma counted_length:
  assumes "numbers e c w = [1..int (length (numbers e c w))]"
    and "\<forall>n\<in>set (numbers e c w). n \<le> int b"
  shows "length (numbers e c w) \<le> b"
proof (cases "numbers e c w = []")
  case True
  then show ?thesis by simp
next
  case False
  let ?k = "int (length (numbers e c w))"
  from False have "1 \<le> ?k" by (cases "numbers e c w") simp_all
  then have "?k \<in> set [1..?k]" by simp
  with assms(1) have "?k \<in> set (numbers e c w)" by simp
  with assms(2) have "?k \<le> int b" by blast
  then show ?thesis by simp
qed

lemma counted_next:
  assumes "numbers e c w = [1..int (length (numbers e c w))]"
    and "int (length (numbers e c w)) < 2 ^ 53"
  shows "voucherNumber_of e c w = int (length (numbers e c w)) + 1"
proof (cases "numbers e c w = []")
  case True
  then show ?thesis by (simp add: voucherNumber_of_Max)
next
  case False
  let ?k = "int (length (numbers e c w))"
  from False have k: "1 \<le> ?k" by (cases "numbers e c w") simp_all
  have "set (numbers e c w) = {1..?k}" using assms(1) by (metis set_upto)
  moreover have "Max {1..?k} = ?k" using k by (intro Max_eqI) auto
  ultimately have m: "Max (set (numbers e c w)) = ?k" by simp
  from k assms(2) have "- (2 ^ 53) \<le> Max (set (numbers e c w))"
    "Max (set (numbers e c w)) < 2 ^ 53"
    unfolding m by simp_all
  from voucherNumber_of_exact [OF False this] m show ?thesis by simp
qed

lemma submit_counted:
  assumes sb: "submit req w = (r, w')" and u: "unnumbered req"
    and i: "\<forall>e c. numbers e c w = [1..int (length (numbers e c w))]"
    and b: "\<forall>e c. int (length (numbers e c w)) < 2 ^ 53"
  shows "\<forall>e c. numbers e c w' = [1..int (length (numbers e c w'))]"
proof (cases r)
  case (Inl err)
  with sb have "vouchers w' = vouchers w" using submit_failed [of req w err w'] by simp
  from numbers_same [OF this] i show ?thesis by simp
next
  case (Inr resp)
  with sb have "submit req w = (Inr resp, w')" by simp
  from submit_unnumbered [OF this u] obtain usr auth w1 c v where
    "authenticateGoogle req w = (Inr (usr, auth), w1)" and
    vs: "vouchers w' = vouchers w @ [v]" and p: "of_pair (user.email usr) c v" and
    n: "voucherNo v = voucherNumber_of (user.email usr) c w"
    by blast
  show ?thesis
  proof (intro allI)
    fix e' c'
    show "numbers e' c' w' = [1..int (length (numbers e' c' w'))]"
    proof (cases "of_pair e' c' v")
      case False
      with i show ?thesis by (simp add: numbers_append [OF vs])
    next
      case True
      with p have ec: "e' = user.email usr" "c' = c" by (simp_all add: of_pair_def)
      let ?ns = "numbers (user.email usr) c w"
      have ns: "?ns = [1..int (length ?ns)]" using i by blast
      have lt: "int (length ?ns) < 2 ^ 53" using b by blast
      have nv: "voucherNo v = int (length ?ns) + 1" using n counted_next [OF ns lt] by simp
      have "numbers e' c' w' = ?ns @ [int (length ?ns) + 1]"
        using True ec nv by (simp add: numbers_append [OF vs])
      also have "\<dots> = [1..int (length ?ns)] @ [int (length ?ns) + 1]" using ns by simp
      also have "\<dots> = [1..int (length ?ns) + 1]" by (simp add: upto_rec2)
      finally show ?thesis by simp
    qed
  qed
qed

lemma run_counted:
  assumes "list_all allocated as" "list_all is_submit as"
    and "\<forall>e c. numbers e c w = [1..int (length (numbers e c w))]"
    and "\<forall>e c. distinct (numbers e c w) \<and> (\<forall>n\<in>set (numbers e c w). 1 \<le> n \<and> n \<le> int b)"
    and "int (b + length as) \<le> 2 ^ 53"
  shows "\<forall>e c. numbers e c (run as w) = [1..int (length (numbers e c (run as w)))]"
  using assms
proof (induction as arbitrary: w b)
  case Nil
  then show ?case by simp
next
  case (Cons a as)
  from Cons.prems(2) obtain req where a: "a = Submit req" by (cases a) simp_all
  with Cons.prems(1) have u: "unnumbered req" by simp
  from Cons.prems(5) have b: "int b < 2 ^ 53" by simp
  have lt: "\<forall>e c. int (length (numbers e c w)) < 2 ^ 53"
  proof (intro allI)
    fix e c
    from Cons.prems(3) have 1: "numbers e c w = [1..int (length (numbers e c w))]" by blast
    from Cons.prems(4) have 2: "\<forall>n\<in>set (numbers e c w). n \<le> int b" by blast
    from counted_length [OF 1 2] b show "int (length (numbers e c w)) < 2 ^ 53" by simp
  qed
  from submit_counted [OF _ u Cons.prems(3) lt, of "fst (submit req w)" "snd (submit req w)"]
  have c: "\<forall>e c. numbers e c (step a w) = [1..int (length (numbers e c (step a w)))]"
    using a by simp
  from Cons.prems(1) have "allocated a" by simp
  from step_well_numbered [OF this Cons.prems(4) b] have
    s: "\<forall>e c. distinct (numbers e c (step a w)) \<and>
           (\<forall>n\<in>set (numbers e c (step a w)). 1 \<le> n \<and> n \<le> int (Suc b))" .
  from Cons.prems(5) have l: "int (Suc b + length as) \<le> 2 ^ 53" by simp
  from Cons.prems(1,2) have "list_all allocated as" "list_all is_submit as" by simp_all
  from Cons.IH [OF this c s l] show ?case by simp
qed

text \<open>
  Claim C2, as stated, fails: after Alice has submitted twice and deleted her voucher of
  number 1, one submission of the pair is left, and her next submission gets the number
  3, not 2.
\<close>

theorem third_submission_after_delete:
  "list_all allocated ex_run \<and>
   numbers ''alice@example.org'' ''Contentstack'' (run ex_run ex_world) = [2] \<and>
   fst (submit (ex_request ''s4'' ''ta'' ex_form) (run ex_run ex_world))
     = Inr (Submitted ''https://docs.google.com/spreadsheets/d/g/edit'' ''g0000'') \<and>
   numbers ''alice@example.org'' ''Contentstack''
     (snd (submit (ex_request ''s4'' ''ta'' ex_form) (run ex_run ex_world))) = [2, 3] \<and>
   (3::int) \<noteq> int (length (numbers ''alice@example.org'' ''Contentstack'' (run ex_run ex_world))) + 1"
  by code_simp

text \<open>
  Claim C2, amended. Take a run of fewer than \<open>2^53\<close> requests, each a submission
  without a number of its own or a deletion, from a world with an empty record store,
  and a further such submission that succeeds. The voucher it stores, for the caller and
  the company, has the number 1 when the pair has no voucher left and else the highest
  number of the pair's vouchers plus 1. This is at least the count of the pair's
  vouchers that are left plus 1, and it is equal to it when the run has no deletion.
  (Within such a run no number reaches \<open>2^53\<close>, so that the additions of line 190 are
  exact.)
\<close>

theorem submission_number_after_run:
  assumes "vouchers w0 = []" and "list_all allocated as" and "unnumbered req"
    and "submit req (run as w0) = (Inr resp, w')" and "length as < 2 ^ 53"
  shows "\<exists>usr auth w1 c v.
    authenticateGoogle req (run as w0) = (Inr (usr, auth), w1) \<and>
    filter_opt (body req) = Some c \<and>
    vouchers w' = vouchers (run as w0) @ [v] \<and> of_pair (user.email usr) c v \<and>
    voucherNo v =
      (if numbers (user.email usr) c (run as w0) = [] then 1
       else Max (set (numbers (user.email usr) c (run as w0))) + 1) \<and>
    int (length (numbers (user.email usr) c (run as w0))) + 1 \<le> voucherNo v \<and>
    (list_all is_submit as \<longrightarrow>
       voucherNo v = int (length (numbers (user.email usr) c (run as w0))) + 1)"
proof -
  let ?w = "run as w0"
  from submit_unnumbered [OF assms(4,3)] obtain usr auth w1 c v where
    au: "authenticateGoogle req ?w = (Inr (usr, auth), w1)" and
    c: "filter_opt (body req) = Some c" and
    vs: "vouchers w' = vouchers ?w @ [v]" and p: "of_pair (user.email usr) c v" and
    n: "voucherNo v = voucherNumber_of (user.email usr) c ?w"
    by blast
  let ?ns = "numbers (user.email usr) c ?w"
  from assms(5) have "int (length as) < int (2 ^ 53)" by (simp only: of_nat_less_iff)
  then have lt: "int (length as) < 2 ^ 53" by simp
  then have le: "int (0 + length as) \<le> 2 ^ 53" by simp
  have e: "\<forall>e c. numbers e c w0 = []" using assms(1) by (simp add: numbers_def)
  then have i0: "\<forall>e c. distinct (numbers e c w0) \<and>
      (\<forall>n\<in>set (numbers e c w0). 1 \<le> n \<and> n \<le> int 0)" by simp
  from run_well_numbered [OF assms(2) i0 le] have
    wn: "distinct ?ns" "\<forall>n\<in>set ?ns. 1 \<le> n \<and> n \<le> int (length as)" by simp_all
  from voucherNumber_of_fresh [OF wn(2) lt] n have
    n1: "voucherNo v = (if ?ns = [] then 1 else Max (set ?ns) + 1)" by simp
  have n2: "int (length ?ns) + 1 \<le> voucherNo v"
  proof (cases "?ns = []")
    case True
    with n1 show ?thesis by simp
  next
    case False
    from wn(2) have "\<forall>n\<in>set ?ns. 1 \<le> n" by blast
    from Max_ge_length [OF wn(1) this False] n1 False show ?thesis by simp
  qed
  have n3: "list_all is_submit as \<longrightarrow> voucherNo v = int (length ?ns) + 1"
  proof
    assume s: "list_all is_submit as"
    from e have "\<forall>e c. numbers e c w0 = [1..int (length (numbers e c w0))]" by simp
    from run_counted [OF assms(2) s this i0 le] have cn: "?ns = [1..int (length ?ns)]" by blast
    from wn(2) have "\<forall>n\<in>set ?ns. n \<le> int (length as)" by blast
    from counted_length [OF cn this] lt have "int (length ?ns) < 2 ^ 53" by simp
    from counted_next [OF cn this] n show "voucherNo v = int (length ?ns) + 1" by simp
  qed
  from au c vs p n1 n2 n3 show ?thesis by blast
qed

theorem submission_number_after_run_witness:
  "\<exists>v. vouchers (snd (submit (ex_request ''s4'' ''ta'' ex_form) (run ex_run ex_world)))
        = vouchers (run ex_run ex_world) @ [v] \<and>
       length (numbers ''alice@example.org'' ''Contentstack'' (run ex_run ex_world)) = 1 \<and>
       voucherNo v = 3"
proof -
  let ?rq = "ex_request ''s4'' ''ta'' ex_form"
  let ?w = "run ex_run ex_world"
  have "fst (submit ?rq ?w) = Inr (Submitted ''https://docs.google.com/spreadsheets/d/g/edit'' ''g0000'')"
    by code_simp
  then have s: "submit ?rq ?w
      = (Inr (Submitted ''https://docs.google.com/spreadsheets/d/g/edit'' ''g0000''), snd (submit ?rq ?w))"
    by (simp add: prod_eq_iff)
  have e: "vouchers ex_world = []" by (simp add: ex_world_def)
  have a: "list_all allocated ex_run" by code_simp
  have l: "length ex_run < 2 ^ 53" by (simp add: ex_run_def)
  have u: "unnumbered ?rq" by code_simp
  have au: "fst (authenticateGoogle ?rq ?w) = Inr (ex_alice, Some ''ta'')"
    by code_simp
  have c: "filter_opt (body ?rq) = Some ''Contentstack''" by code_simp
  have ns: "numbers (user.email ex_alice) ''Contentstack'' ?w = [2]"
    by code_simp
  have ns': "numbers ''alice@example.org'' ''Contentstack'' ?w = [2]"
    by code_simp
  from submission_number_after_run [OF e a u s l] obtain usr auth w1 c' v where
    "authenticateGoogle ?rq ?w = (Inr (usr, auth), w1)"
    "filter_opt (body ?rq) = Some c'"
    "vouchers (snd (submit ?rq ?w)) = vouchers ?w @ [v]"
    "voucherNo v =
      (if numbers (user.email usr) c' ?w = [] then 1
       else Max (set (numbers (user.email usr) c' ?w)) + 1)"
    by blast
  with au c ns have "vouchers (snd (submit ?rq ?w)) = vouchers ?w @ [v] \<and> voucherNo v = 3"
    by simp
  with ns' show ?thesis by auto
qed

end
